theory Spec2Isabelle
  imports Main "HOL-Library.AList" "HOL-Library.Char_ord" "HOL-Library.List_Lexorder"
begin

section \<open>The run tracker of gtp_connection.py\<close>

text \<open>
  The connection object keeps, for each colour, a dictionary from a coordinate
  \<open>(row, col)\<close> to an inner dictionary with the four keys \<open>upDown\<close>,
  \<open>leftRight\<close>, \<open>backslash\<close> and \<open>forwardslash\<close> (created in this order by
  \<open>setdefault\<close>), and a dictionary \<open>colorMax\<close> with the keys \<open>b\<close> and \<open>w\<close>.
  Python dictionaries keep insertion order, so the outer dictionary is an association
  list; the inner dictionary always has exactly its four keys and is a record.
\<close>

type_synonym cell = "int \<times> int"

datatype direction = UpDown | LeftRight | Backslash | Forwardslash

datatype side = First | Second

record runs =
  upDown :: int
  leftRight :: int
  backslash :: int
  forwardslash :: int

type_synonym move_dict = "(cell \<times> runs) list"

datatype exn =
    ValueError string
  | KeyError string
  | IndexError string
  | TypeError string
  | AttributeError string
  | UnboundLocalError string
  | ZeroDivisionError string
  | InvalidSizeError string

fun get_run :: "direction \<Rightarrow> runs \<Rightarrow> int" where
  "get_run UpDown r = upDown r"
| "get_run LeftRight r = leftRight r"
| "get_run Backslash r = backslash r"
| "get_run Forwardslash r = forwardslash r"

fun set_run :: "direction \<Rightarrow> int \<Rightarrow> runs \<Rightarrow> runs" where
  "set_run UpDown v r = r\<lparr>upDown := v\<rparr>"
| "set_run LeftRight v r = r\<lparr>leftRight := v\<rparr>"
| "set_run Backslash v r = r\<lparr>backslash := v\<rparr>"
| "set_run Forwardslash v r = r\<lparr>forwardslash := v\<rparr>"

text \<open>The value given to \<open>setdefault\<close>: every direction starts at 1.\<close>

definition fresh_runs :: runs where
  "fresh_runs = \<lparr>upDown = 1, leftRight = 1, backslash = 1, forwardslash = 1\<rparr>"

text \<open>\<open>items()\<close> of an inner dictionary, in insertion order.\<close>

definition run_items :: "runs \<Rightarrow> (direction \<times> int) list" where
  "run_items r =
     [(UpDown, upDown r), (LeftRight, leftRight r),
      (Backslash, backslash r), (Forwardslash, forwardslash r)]"

text \<open>
  The neighbour of \<open>coord\<close> that the source computes on each side of a direction.
  \<open>k = 0\<close> is the neighbour assigned before a loop (\<open>(coord[0]-1, coord[1])\<close> for
  \<open>upNighbour\<close>); inside the loop the source assigns
  \<open>(coord[0]-1-counter, coord[1])\<close>, which is \<open>nbr UpDown First coord counter\<close>.
  \<open>First\<close> is the side the source tests first in each block (up, left, leftDown,
  leftUp), \<open>Second\<close> the other one (down, right, rightUp, rightDown).
\<close>

fun nbr :: "direction \<Rightarrow> side \<Rightarrow> cell \<Rightarrow> int \<Rightarrow> cell" where
  "nbr UpDown First (r, c) k = (r - 1 - k, c)"
| "nbr UpDown Second (r, c) k = (r + 1 + k, c)"
| "nbr LeftRight First (r, c) k = (r, c - 1 - k)"
| "nbr LeftRight Second (r, c) k = (r, c + 1 + k)"
| "nbr Forwardslash First (r, c) k = (r - 1 - k, c + 1 + k)"
| "nbr Forwardslash Second (r, c) k = (r + 1 + k, c - 1 - k)"
| "nbr Backslash First (r, c) k = (r - 1 - k, c - 1 - k)"
| "nbr Backslash Second (r, c) k = (r + 1 + k, c + 1 + k)"

text \<open>
  How far a cell lies along the ray that leaves \<open>coord\<close> on one side of a direction;
  only the termination proof of the loops uses it.
\<close>

fun along :: "direction \<Rightarrow> side \<Rightarrow> cell \<Rightarrow> int" where
  "along UpDown First (r, c) = - r"
| "along UpDown Second (r, c) = r"
| "along LeftRight First (r, c) = - c"
| "along LeftRight Second (r, c) = c"
| "along Forwardslash First (r, c) = - r"
| "along Forwardslash Second (r, c) = r"
| "along Backslash First (r, c) = - r"
| "along Backslash Second (r, c) = r"

lemma along_nbr: "along d sd (nbr d sd coord k) = along d sd coord + 1 + k"
  by (cases d; cases sd; cases coord) simp_all

lemma length_filter_less_mono:
  assumes "x \<in> set xs" and "Q x" and "\<not> P x" and "\<And>y. P y \<Longrightarrow> Q y"
  shows "length (filter P xs) < length (filter Q xs)"
proof -
  have "filter P xs = filter P (filter Q xs)"
    using assms(4) by (induction xs) auto
  moreover have "x \<in> set (filter Q xs)"
    using assms(1,2) by simp
  ultimately show ?thesis
    using assms(3) by (metis length_filter_less)
qed

text \<open>
  One propagation loop of the source:
  \<^verbatim>\<open>
  while upNighbour in dictPointer.keys():
      dictPointer.get(upNighbour)['upDown'] = dictPointer.get(coord)['upDown']
      upNighbour = (coord[0]-1-counter,coord[1])
      counter +=1
  \<close>
  At the loop test the neighbour is \<open>nbr d sd coord k\<close>, where \<open>k\<close> is the number of
  completed iterations (the source's \<open>counter - 1\<close>). \<open>dictPointer.get(coord)\<close> is
  \<open>None\<close> for a missing key, and subscripting it raises \<open>TypeError\<close>.
\<close>

function walk :: "move_dict \<Rightarrow> cell \<Rightarrow> direction \<Rightarrow> side \<Rightarrow> int \<Rightarrow> exn + move_dict" where
  "walk D coord d sd k =
     (case map_of D (nbr d sd coord k) of
        None \<Rightarrow> Inr D
      | Some _ \<Rightarrow>
          (case map_of D coord of
             None \<Rightarrow> Inl (TypeError ''NoneType object is not subscriptable'')
           | Some rc \<Rightarrow>
               walk (AList.map_entry (nbr d sd coord k) (set_run d (get_run d rc)) D)
                    coord d sd (k + 1)))"
  by pat_completeness auto
termination
proof (relation "measure (\<lambda>(D, coord, d, sd, k).
          length (filter (\<lambda>x. along d sd (nbr d sd coord k) \<le> along d sd x) (map fst D)))")
  show "wf (measure (\<lambda>(D, coord, d, sd, k).
          length (filter (\<lambda>x. along d sd (nbr d sd coord k) \<le> along d sd x) (map fst D))))"
    by simp
next
  fix D :: move_dict and coord d sd k x2 x2a
  assume a: "map_of D (nbr d sd coord k) = Some x2"
  let ?nb = "nbr d sd coord k"
  let ?D' = "AList.map_entry ?nb (set_run d (get_run d x2a)) D"
  have keys: "map fst ?D' = map fst D"
    by (induction D) auto
  have mem: "?nb \<in> set (map fst D)"
    using a by (metis map_of_eq_None_iff option.distinct(1) set_map)
  have "length (filter (\<lambda>x. along d sd (nbr d sd coord (k + 1)) \<le> along d sd x) (map fst D))
      < length (filter (\<lambda>x. along d sd ?nb \<le> along d sd x) (map fst D))"
    by (rule length_filter_less_mono [OF mem]) (simp_all add: along_nbr)
  then show "((?D', coord, d, sd, k + 1), (D, coord, d, sd, k))
      \<in> measure (\<lambda>(D, coord, d, sd, k).
          length (filter (\<lambda>x. along d sd (nbr d sd coord k) \<le> along d sd x) (map fst D)))"
    unfolding in_measure by (simp only: prod.case keys)
qed

text \<open>\<open>dictPointer.setdefault(coord, v)\<close>: an existing entry is kept as it is.\<close>

definition setdefault :: "move_dict \<Rightarrow> cell \<Rightarrow> runs \<Rightarrow> move_dict" where
  "setdefault D coord v = (case map_of D coord of None \<Rightarrow> D @ [(coord, v)] | Some _ \<Rightarrow> D)"

text \<open>
  One \<open>if neighbour in dictPointer.keys():\<close> block: the neighbour's stored length is
  added to the placed cell's length, and the result is written along that side.
  \<^verbatim>\<open>
  if upNighbour in dictPointer.keys():
      dictPointer.get(coord)['upDown'] += dictPointer.get(upNighbour)['upDown']
      counter = 1
      while upNighbour in dictPointer.keys(): ...
  \<close>
\<close>

definition absorb :: "move_dict \<Rightarrow> cell \<Rightarrow> direction \<Rightarrow> side \<Rightarrow> exn + move_dict" where
  "absorb D coord d sd =
     (case map_of D (nbr d sd coord 0) of
        None \<Rightarrow> Inr D
      | Some rn \<Rightarrow>
          (case map_of D coord of
             None \<Rightarrow> Inl (TypeError ''NoneType object is not subscriptable'')
           | Some rc \<Rightarrow>
               walk (AList.map_entry coord (set_run d (get_run d rc + get_run d rn)) D)
                    coord d sd 0))"

text \<open>
  The body of one \<open>if key == ...:\<close> block: the first side, the second side, and the
  first side once more (\<open>#re-update upnighbor again!\<close>).
\<close>

definition update_dir :: "move_dict \<Rightarrow> cell \<Rightarrow> direction \<Rightarrow> exn + move_dict" where
  "update_dir D coord d =
     (case absorb D coord d First of
        Inl e \<Rightarrow> Inl e
      | Inr D1 \<Rightarrow>
          (case absorb D1 coord d Second of
             Inl e \<Rightarrow> Inl e
           | Inr D2 \<Rightarrow> walk D2 coord d First 0))"

text \<open>\<open>for key,value in dictPointer.get(coord).items():\<close> over the keys in their order.\<close>

fun update_dirs :: "move_dict \<Rightarrow> cell \<Rightarrow> direction list \<Rightarrow> exn + move_dict" where
  "update_dirs D coord [] = Inr D"
| "update_dirs D coord (d # ds) =
     (case update_dir D coord d of Inl e \<Rightarrow> Inl e | Inr D' \<Rightarrow> update_dirs D' coord ds)"

text \<open>Lines 351 to 466 of the source, on the dictionary that \<open>dictPointer\<close> names.\<close>

definition track :: "move_dict \<Rightarrow> cell \<Rightarrow> exn + move_dict" where
  "track D coord =
     (let D0 = setdefault D coord fresh_runs in
      case map_of D0 coord of
        None \<Rightarrow> Inl (AttributeError ''NoneType object has no attribute items'')
      | Some r \<Rightarrow> update_dirs D0 coord (map fst (run_items r)))"

text \<open>
  The last loop of \<open>insertKeyIntoDict\<close>:
  \<^verbatim>\<open>
  for key, value in dictPointer.get(coord).items():
      if value > self.colorMax.get(color.lower()):
           self.colorMax[color.lower()] = value
  \<close>
  \<open>colorMax.get\<close> is \<open>None\<close> for a missing key, and \<open>value > None\<close> raises
  \<open>TypeError\<close>.
\<close>

fun raise_max :: "(string \<times> int) list \<Rightarrow> string \<Rightarrow> int list \<Rightarrow> exn + (string \<times> int) list" where
  "raise_max cm key [] = Inr cm"
| "raise_max cm key (v # vs) =
     (case map_of cm key of
        None \<Rightarrow> Inl (TypeError ''> not supported between instances of int and NoneType'')
      | Some m \<Rightarrow> raise_max (if v > m then AList.update key v cm else cm) key vs)"

section \<open>Strings\<close>

text \<open>
  Strings are lists of characters with the code points 0 to 255. \<open>str.lower\<close>
  changes the 26 letters and the accented capital letters \<open>0xC0 .. 0xDE\<close> (all but
  the multiplication sign \<open>0xD7\<close>), which lie 32 below their small letters.
\<close>

definition lower_char :: "char \<Rightarrow> char" where
  "lower_char c =
     (case map_of (zip ''ABCDEFGHIJKLMNOPQRSTUVWXYZ'' ''abcdefghijklmnopqrstuvwxyz'') c of
        Some l \<Rightarrow> l
      | None \<Rightarrow>
          if (0xC0 :: nat) \<le> of_char c \<and> of_char c \<le> (0xDE :: nat) \<and> of_char c \<noteq> (0xD7 :: nat)
          then char_of (of_char c + (32 :: nat)) else c)"

text \<open>
  \<open>str.upper\<close> on the 26 letters. The source applies it only to the joined texts of
  \<open>format_point\<close>, which consist of these letters, digits and blanks.
\<close>

definition upper_char :: "char \<Rightarrow> char" where
  "upper_char c =
     (case map_of (zip ''abcdefghijklmnopqrstuvwxyz'' ''ABCDEFGHIJKLMNOPQRSTUVWXYZ'') c of
        None \<Rightarrow> c | Some u \<Rightarrow> u)"

definition lower :: "string \<Rightarrow> string" where
  "lower s = map lower_char s"

definition upper :: "string \<Rightarrow> string" where
  "upper s = map upper_char s"

text \<open>\<open>' '.join(xs)\<close>.\<close>

fun join :: "string \<Rightarrow> string list \<Rightarrow> string" where
  "join sep [] = []"
| "join sep [x] = x"
| "join sep (x # y # ys) = x @ sep @ join sep (y # ys)"

text \<open>\<open>str(n)\<close> for an integer: decimal digits, with a minus sign below zero.\<close>

definition digit_char :: "nat \<Rightarrow> char" where
  "digit_char n = ''0123456789'' ! (n mod 10)"

fun str_nat :: "nat \<Rightarrow> string" where
  "str_nat n = (if n < 10 then [digit_char n] else str_nat (n div 10) @ [digit_char n])"

definition str :: "int \<Rightarrow> string" where
  "str i = (if i < 0 then CHR ''-'' # str_nat (nat (- i)) else str_nat (nat i))"

text \<open>
  \<open>int(s)\<close> for a string: surrounding white space is dropped, one sign is allowed,
  and the rest is decimal digits, where single underscores may stand between digits.
  Anything else raises \<open>ValueError\<close>. The white space that \<open>int\<close> drops is the
  blank, the control characters \<open>0x09 .. 0x0D\<close>, and above ASCII the characters
  \<open>0x85\<close> and \<open>0xA0\<close>; the separators \<open>0x1C .. 0x1F\<close> are not dropped.
\<close>

definition is_digit :: "char \<Rightarrow> bool" where
  "is_digit c = (c \<in> set ''0123456789'')"

definition digit_val :: "char \<Rightarrow> int" where
  "digit_val c =
     (case map_of (zip ''0123456789'' [0, 1, 2, 3, 4, 5, 6, 7, 8, 9]) c of
        None \<Rightarrow> 0 | Some v \<Rightarrow> v)"

definition is_space :: "char \<Rightarrow> bool" where
  "is_space c =
     (c \<in> set [CHR '' '', CHR 0x09, CHR 0x0A, CHR 0x0B, CHR 0x0C, CHR 0x0D,
               CHR 0x85, CHR 0xA0])"

definition strip :: "string \<Rightarrow> string" where
  "strip s = rev (dropWhile is_space (rev (dropWhile is_space s)))"

fun digit_groups :: "string \<Rightarrow> bool" where
  "digit_groups [] = False"
| "digit_groups [c] = is_digit c"
| "digit_groups (c # u # cs) =
     (is_digit c \<and> (if u = CHR ''_'' then digit_groups cs else digit_groups (u # cs)))"

definition digits_value :: "string \<Rightarrow> int" where
  "digits_value s = foldl (\<lambda>acc c. if c = CHR ''_'' then acc else acc * 10 + digit_val c) 0 s"

definition py_int :: "string \<Rightarrow> exn + int" where
  "py_int s =
     (let t = strip s;
          neg = (t \<noteq> [] \<and> hd t = CHR ''-'');
          body = (if t \<noteq> [] \<and> (hd t = CHR ''-'' \<or> hd t = CHR ''+'') then tl t else t)
      in if digit_groups body
         then Inr (if neg then - digits_value body else digits_value body)
         else Inl (ValueError ''invalid literal for int() with base 10''))"

section \<open>The board\<close>

text \<open>
  \<open>board_util\<close> and the board class are imported by gtp_connection.py and are not
  among the sources. The definitions of this section stand for them.
\<close>

text \<open>
  Modelled from the spec: the occupancy of a cell is empty, one of the two players
  (Black and White) or border; \<open>board_util\<close> names the four values \<open>EMPTY\<close>,
  \<open>BLACK\<close>, \<open>WHITE\<close> and \<open>BORDER\<close>.
\<close>

datatype color = EMPTY | BLACK | WHITE | BORDER

text \<open>Modelled from the spec: the bound \<open>MAXSIZE\<close> on the board size, 25.\<close>

definition MAXSIZE :: int where
  "MAXSIZE = 25"

text \<open>
  Modelled from the spec: the board holds the occupancy of every cell (empty, one of
  the two players, or border outside the board), its size and the player to move.
  The source addresses a cell by its index in the board array, the \<open>point\<close> that
  \<open>point_to_coord\<close> splits with \<open>divmod(point, boardsize + 1)\<close>.
\<close>

record go_board =
  bd_size :: int
  bd_array :: "int \<Rightarrow> color"
  current_player :: color

text \<open>
  Modelled from the spec: \<open>coord_to_point\<close> is the index of a cell in the board
  array, the inverse of the source's \<open>point_to_coord\<close>.
\<close>

definition coord_to_point :: "int \<Rightarrow> int \<Rightarrow> int \<Rightarrow> int" where
  "coord_to_point row col boardsize = (boardsize + 1) * row + col"

text \<open>
  Modelled from the spec: the in-bounds cells of a board of size \<open>N\<close> are those with
  row and column in \<open>1 .. N\<close>; every other point of the board array is border.
\<close>

definition on_board :: "int \<Rightarrow> int \<Rightarrow> bool" where
  "on_board boardsize p =
     (1 \<le> p div (boardsize + 1) \<and> p div (boardsize + 1) \<le> boardsize \<and>
      1 \<le> p mod (boardsize + 1) \<and> p mod (boardsize + 1) \<le> boardsize)"

text \<open>
  Modelled from the spec: a board after \<open>reset(size)\<close> has all in-bounds cells empty
  and Black to move.
\<close>

definition empty_board :: "int \<Rightarrow> go_board" where
  "empty_board n =
     \<lparr>bd_size = n,
      bd_array = (\<lambda>p. if on_board n p then EMPTY else BORDER),
      current_player = BLACK\<rparr>"

text \<open>
  Modelled from the spec: \<open>reset(size)\<close> gives that board and fails with
  \<open>InvalidSizeError\<close> when the size is outside \<open>[2, MAXSIZE]\<close>.
\<close>

definition reset :: "int \<Rightarrow> exn + go_board" where
  "reset n =
     (if 2 \<le> n \<and> n \<le> MAXSIZE then Inr (empty_board n)
      else Inl (InvalidSizeError ''size out of range''))"

text \<open>
  Modelled from the spec: \<open>place(cell, player)\<close> fails if the cell is not empty and
  otherwise sets its occupancy; it does not change the player to move. A pass (the
  move \<open>None\<close>) is accepted without an occupancy change.
\<close>

fun play_move :: "go_board \<Rightarrow> int option \<Rightarrow> color \<Rightarrow> bool \<times> go_board" where
  "play_move b None c = (True, b)"
| "play_move b (Some p) c =
     (if bd_array b p \<noteq> EMPTY then (False, b)
      else (True, b\<lparr>bd_array := (bd_array b)(p := c)\<rparr>))"

text \<open>Modelled from the spec: the empty cells of the board, the legal moves.\<close>

definition get_empty_points :: "go_board \<Rightarrow> int list" where
  "get_empty_points b =
     filter (\<lambda>p. bd_array b p = EMPTY)
       (concat (map (\<lambda>r. map (\<lambda>c. coord_to_point r c (bd_size b)) [1..bd_size b])
                    [1..bd_size b]))"

text \<open>Modelled from the spec: the two players alternate.\<close>

fun opponent :: "color \<Rightarrow> color" where
  "opponent BLACK = WHITE"
| "opponent WHITE = BLACK"
| "opponent c = c"

section \<open>Coordinates\<close>

definition point_to_coord :: "int option \<Rightarrow> int \<Rightarrow> exn + cell option" where
  "point_to_coord point boardsize =
     (case point of
        None \<Rightarrow> Inr None
      | Some p \<Rightarrow>
          (let NS = boardsize + 1 in
           if NS = 0 then Inl (ZeroDivisionError ''integer division or modulo by zero'')
           else Inr (Some (p div NS, p mod NS))))"

definition column_letters :: string where
  "column_letters = ''abcdefghjklmnopqrstuvwxyz''"

text \<open>\<open>xs[i]\<close> of Python: a negative index counts from the end.\<close>

definition py_index :: "'a list \<Rightarrow> int \<Rightarrow> exn + 'a" where
  "py_index xs i =
     (if 0 \<le> i \<and> i < int (length xs) then Inr (xs ! nat i)
      else if - int (length xs) \<le> i \<and> i < 0 then Inr (xs ! nat (int (length xs) + i))
      else Inl (IndexError ''string index out of range''))"

definition format_point :: "cell option \<Rightarrow> exn + string" where
  "format_point move =
     (case move of
        None \<Rightarrow> Inr ''pass''
      | Some (row, col) \<Rightarrow>
          if \<not> (0 \<le> row \<and> row < MAXSIZE) \<or> \<not> (0 \<le> col \<and> col < MAXSIZE)
          then Inl (ValueError [])
          else (case py_index column_letters (col - 1) of
                  Inl e \<Rightarrow> Inl e
                | Inr l \<Rightarrow> Inr (l # str row)))"

text \<open>
  The \<open>try\<close> block of \<open>move_to_coord\<close>: \<open>IndexError\<close> and \<open>ValueError\<close> raised in
  it are caught and replaced by the \<open>ValueError\<close> of the handler.
\<close>

definition parse_point :: "string \<Rightarrow> exn + (int \<times> int)" where
  "parse_point s =
     (case s of
        [] \<Rightarrow> Inl (IndexError ''string index out of range'')
      | col_c # rest \<Rightarrow>
          if \<not> (CHR ''a'' \<le> col_c \<and> col_c \<le> CHR ''z'') \<or> col_c = CHR ''i''
          then Inl (ValueError [])
          else (let col = int (of_char col_c) - int (of_char (CHR ''a''));
                    col = (if col_c < CHR ''i'' then col + 1 else col)
                in case py_int rest of
                     Inl e \<Rightarrow> Inl e
                   | Inr row \<Rightarrow> if row < 1 then Inl (ValueError []) else Inr (row, col)))"

definition move_to_coord :: "string \<Rightarrow> int \<Rightarrow> exn + cell option" where
  "move_to_coord point_str board_size =
     (if \<not> (2 \<le> board_size \<and> board_size \<le> MAXSIZE)
      then Inl (ValueError ''board_size out of range'')
      else (let s = lower point_str in
            if s = ''pass'' then Inr None
            else (case parse_point s of
                    Inl e \<Rightarrow> Inl (ValueError (''invalid point: '' @ [CHR 0x27] @ s @ [CHR 0x27]))
                  | Inr (row, col) \<Rightarrow>
                      if \<not> (col \<le> board_size \<and> row \<le> board_size)
                      then Inl (ValueError (''point off board: '' @ [CHR 0x27] @ s @ [CHR 0x27]))
                      else Inr (Some (row, col)))))"

definition color_to_int :: "string \<Rightarrow> exn + color" where
  "color_to_int c =
     (case map_of [(''b'', BLACK), (''w'', WHITE), (''e'', EMPTY), (''BORDER'', BORDER)] c of
        None \<Rightarrow> Inl (KeyError c)
      | Some v \<Rightarrow> Inr v)"

section \<open>The connection and its commands\<close>

text \<open>
  The attributes of \<open>GtpConnection\<close> that the commands below read or write.
  \<open>__init__\<close> sets the four first ones to \<open>None\<close> and never creates \<open>colorMax\<close>:
  the value \<open>None\<close> of the field \<open>colorMax\<close> stands for the missing attribute.
\<close>

record gtp =
  blackMax :: "int option"
  whiteMax :: "int option"
  dictStoreWhiteMove :: "move_dict option"
  dictStoreBlackMove :: "move_dict option"
  colorMax :: "(string \<times> int) list option"
  board :: go_board

definition init :: "go_board \<Rightarrow> gtp" where
  "init b =
     \<lparr>blackMax = None, whiteMax = None,
      dictStoreWhiteMove = None, dictStoreBlackMove = None,
      colorMax = None, board = b\<rparr>"

text \<open>\<open>self.respond(text)\<close> writes \<open>= text\<close>, \<open>self.error(text)\<close> writes \<open>? text\<close>.\<close>

datatype reply = Respond string | Error string

text \<open>\<open>str(e)\<close> of a caught exception: its message, and the quoted key of a \<open>KeyError\<close>.\<close>

fun exn_str :: "exn \<Rightarrow> string" where
  "exn_str (KeyError k) = [CHR 0x27] @ k @ [CHR 0x27]"
| "exn_str (ValueError m) = m"
| "exn_str (IndexError m) = m"
| "exn_str (TypeError m) = m"
| "exn_str (AttributeError m) = m"
| "exn_str (UnboundLocalError m) = m"
| "exn_str (ZeroDivisionError m) = m"
| "exn_str (InvalidSizeError m) = m"

text \<open>
  \<open>insertKeyIntoDict(self, color, coord, move)\<close>. \<open>dictPointer\<close> names the white or
  the black dictionary of the connection, or a new empty one for any other colour; what
  is written through it is written to the connection. The result is the exception
  raised, if any, and the connection as the call leaves it.
\<close>

definition insertKeyIntoDict :: "gtp \<Rightarrow> string \<Rightarrow> cell \<Rightarrow> int \<Rightarrow> exn option \<times> gtp" where
  "insertKeyIntoDict s color coord move =
     (let dictPointer =
            (if lower color = ''w'' then dictStoreWhiteMove s
             else if lower color = ''b'' then dictStoreBlackMove s
             else Some [])
      in case dictPointer of
           None \<Rightarrow> (Some (AttributeError ''NoneType object has no attribute setdefault''), s)
         | Some D \<Rightarrow>
             (case track D coord of
                Inl e \<Rightarrow> (Some e, s)
              | Inr D' \<Rightarrow>
                  (let s1 = (if lower color = ''w'' then s\<lparr>dictStoreWhiteMove := Some D'\<rparr>
                             else if lower color = ''b'' then s\<lparr>dictStoreBlackMove := Some D'\<rparr>
                             else s)
                   in case map_of D' coord of
                        None \<Rightarrow> (Some (AttributeError ''NoneType object has no attribute items''), s1)
                      | Some r \<Rightarrow>
                          (case colorMax s1 of
                             None \<Rightarrow> (Some (AttributeError ''GtpConnection object has no attribute colorMax''), s1)
                           | Some cm \<Rightarrow>
                               (case raise_max cm (lower color) (map snd (run_items r)) of
                                  Inl e \<Rightarrow> (Some e, s1)
                                | Inr cm' \<Rightarrow> (None, s1\<lparr>colorMax := Some cm'\<rparr>))))))"

definition clear_board_cmd :: "gtp \<Rightarrow> string list \<Rightarrow> exn + (reply \<times> gtp)" where
  "clear_board_cmd s args =
     (case reset (bd_size (board s)) of
        Inl e \<Rightarrow> Inl e
      | Inr b \<Rightarrow>
          Inr (Respond [],
               s\<lparr>board := b, dictStoreWhiteMove := Some [], dictStoreBlackMove := Some [],
                 colorMax := Some [(''b'', 0), (''w'', 0)]\<rparr>))"

definition boardsize_cmd :: "gtp \<Rightarrow> string list \<Rightarrow> exn + (reply \<times> gtp)" where
  "boardsize_cmd s args =
     (case args of
        [] \<Rightarrow> Inl (IndexError ''list index out of range'')
      | a # _ \<Rightarrow>
          (case py_int a of
             Inl e \<Rightarrow> Inl e
           | Inr n \<Rightarrow>
               (case reset n of
                  Inl e \<Rightarrow> Inl e
                | Inr b \<Rightarrow> Inr (Respond [], s\<lparr>board := b\<rparr>))))"

text \<open>
  The test \<open>self.colorMax['w'] >= 5 or self.colorMax['b'] >= 5\<close> of three commands:
  the white entry is read first, and the black one only if the white one is below 5.
\<close>

definition one_side_won :: "gtp \<Rightarrow> exn + bool" where
  "one_side_won s =
     (case colorMax s of
        None \<Rightarrow> Inl (AttributeError ''GtpConnection object has no attribute colorMax'')
      | Some cm \<Rightarrow>
          (case map_of cm ''w'' of
             None \<Rightarrow> Inl (KeyError ''w'')
           | Some w \<Rightarrow>
               if w \<ge> 5 then Inr True
               else (case map_of cm ''b'' of
                       None \<Rightarrow> Inl (KeyError ''b'')
                     | Some b \<Rightarrow> Inr (b \<ge> 5))))"

text \<open>The loop of \<open>gogui_rules_legal_moves_cmd\<close> that formats every empty point.\<close>

fun format_moves :: "int list \<Rightarrow> int \<Rightarrow> exn + string list" where
  "format_moves [] n = Inr []"
| "format_moves (m # ms) n =
     (case point_to_coord (Some m) n of
        Inl e \<Rightarrow> Inl e
      | Inr coords \<Rightarrow>
          (case format_point coords of
             Inl e \<Rightarrow> Inl e
           | Inr t \<Rightarrow>
               (case format_moves ms n of
                  Inl e \<Rightarrow> Inl e
                | Inr ts \<Rightarrow> Inr (t # ts))))"

definition gogui_rules_legal_moves_cmd :: "gtp \<Rightarrow> string list \<Rightarrow> exn + (reply \<times> gtp)" where
  "gogui_rules_legal_moves_cmd s args =
     (case one_side_won s of
        Inl e \<Rightarrow> Inl e
      | Inr won \<Rightarrow>
          if won then Inr (Respond [], s)
          else (case format_moves (get_empty_points (board s)) (bd_size (board s)) of
                  Inl e \<Rightarrow> Inl e
                | Inr gtp_moves \<Rightarrow> Inr (Respond (upper (join '' '' (sort gtp_moves))), s)))"

definition gogui_rules_final_result_cmd :: "gtp \<Rightarrow> string list \<Rightarrow> exn + (reply \<times> gtp)" where
  "gogui_rules_final_result_cmd s args =
     (if length (get_empty_points (board s)) = 0 then Inr (Respond ''draw'', s)
      else (case colorMax s of
              None \<Rightarrow> Inl (AttributeError ''GtpConnection object has no attribute colorMax'')
            | Some cm \<Rightarrow>
                (case map_of cm ''w'' of
                   None \<Rightarrow> Inl (KeyError ''w'')
                 | Some w \<Rightarrow>
                     if w \<ge> 5 then Inr (Respond ''white win'', s)
                     else (case map_of cm ''b'' of
                             None \<Rightarrow> Inl (KeyError ''b'')
                           | Some b \<Rightarrow>
                               if b \<ge> 5 then Inr (Respond ''black win'', s)
                               else Inr (Respond ''unknown'', s)))))"

text \<open>
  The \<open>try\<close> block of \<open>play_cmd\<close>: the reply, or the exception that leaves the block,
  and the connection at that moment. The debug message does not change the state.
\<close>

definition play_body :: "gtp \<Rightarrow> string list \<Rightarrow> (exn + reply) \<times> gtp" where
  "play_body s args =
     (case args of
        [] \<Rightarrow> (Inl (IndexError ''list index out of range''), s)
      | [a0] \<Rightarrow> (Inl (IndexError ''list index out of range''), s)
      | a0 # a1 # _ \<Rightarrow>
          (let board_color = lower a0; board_move = a1 in
           case color_to_int board_color of
             Inl e \<Rightarrow> (Inl e, s)
           | Inr color \<Rightarrow>
               if lower a1 = ''pass''
               then (let b = snd (play_move (board s) None color)
                     in (Inr (Respond []), s\<lparr>board := b\<lparr>current_player := opponent color\<rparr>\<rparr>))
               else
                 (case move_to_coord a1 (bd_size (board s)) of
                    Inl e \<Rightarrow> (Inl e, s)
                  | Inr None \<Rightarrow>
                      (Inl (UnboundLocalError ''local variable move referenced before assignment''), s)
                  | Inr (Some coord) \<Rightarrow>
                      (let move = coord_to_point (fst coord) (snd coord) (bd_size (board s)) in
                       case one_side_won s of
                         Inl e \<Rightarrow> (Inl e, s)
                       | Inr won \<Rightarrow>
                           if won then (Inr (Respond ''One side is win game over!''), s)
                           else
                             (case play_move (board s) (Some move) color of
                                (ok, b) \<Rightarrow>
                                  if \<not> ok
                                  then (Inr (Respond (''Illegal Move: '' @ board_move)), s\<lparr>board := b\<rparr>)
                                  else
                                    (case insertKeyIntoDict (s\<lparr>board := b\<rparr>) a0 coord move of
                                       (Some e, s') \<Rightarrow> (Inl e, s')
                                     | (None, s') \<Rightarrow> (Inr (Respond []), s')))))))"

definition play_cmd :: "gtp \<Rightarrow> string list \<Rightarrow> reply \<times> gtp" where
  "play_cmd s args =
     (case play_body s args of
        (Inl e, s') \<Rightarrow> (Respond (''Error: '' @ exn_str e), s')
      | (Inr r, s') \<Rightarrow> (r, s'))"

section \<open>Games\<close>

text \<open>
  A game as the tracker sees it: the calls of \<open>insertKeyIntoDict\<close>, one after the
  other, each on the connection that the call before it left.
\<close>

fun insert_all :: "gtp \<Rightarrow> (string \<times> cell \<times> int) list \<Rightarrow> gtp" where
  "insert_all s [] = s"
| "insert_all s ((color, coord, move) # ps) =
     insert_all (snd (insertKeyIntoDict s color coord move)) ps"

text \<open>The connection that \<open>clear_board_cmd\<close> leaves on a board of size \<open>n\<close>.\<close>

definition new_game :: "int \<Rightarrow> gtp" where
  "new_game n =
     \<lparr>blackMax = None, whiteMax = None,
      dictStoreWhiteMove = Some [], dictStoreBlackMove = Some [],
      colorMax = Some [(''b'', 0), (''w'', 0)], board = empty_board n\<rparr>"

text \<open>
  The connections that can be reached without \<open>clear_board_cmd\<close>: the new connection
  of \<open>__init__\<close>, and what \<open>play_cmd\<close> and \<open>boardsize_cmd\<close> make of such a
  connection (the other commands modelled here do not change the connection).
\<close>

inductive never_cleared :: "gtp \<Rightarrow> bool" where
  fresh: "never_cleared (init b)"
| play: "never_cleared s \<Longrightarrow> play_cmd s args = (r, s') \<Longrightarrow> never_cleared s'"
| boardsize: "never_cleared s \<Longrightarrow> boardsize_cmd s args = Inr (r, s') \<Longrightarrow> never_cleared s'"

text \<open>A sequence of \<open>play\<close> commands, each on the connection the one before left.\<close>

fun play_all :: "gtp \<Rightarrow> string list list \<Rightarrow> gtp" where
  "play_all s [] = s"
| "play_all s (a # as) = play_all (snd (play_cmd s a)) as"

text \<open>
  A game of 25 play commands on the 5 x 5 board in which the last stone both completes
  the row \<open>a1 .. e1\<close> of the player \<open>p\<close> and fills the board; no row, column or
  diagonal of one colour is complete before it.
\<close>

definition full_game :: "string \<Rightarrow> string \<Rightarrow> string list list" where
  "full_game p q =
     [[q, ''a2''], [q, ''b2''], [q, ''c2''], [q, ''d2''], [p, ''e2''],
      [p, ''a3''], [p, ''b3''], [p, ''c3''], [p, ''d3''], [q, ''e3''],
      [q, ''a4''], [p, ''b4''], [p, ''c4''], [p, ''d4''], [p, ''e4''],
      [p, ''a5''], [q, ''b5''], [p, ''c5''], [p, ''d5''], [p, ''e5''],
      [p, ''a1''], [p, ''b1''], [p, ''d1''], [p, ''e1''], [p, ''c1'']]"

text \<open>
  The commands that change the connection, as \<open>get_cmd\<close> dispatches them: a command
  line is split into the name and the arguments, and the handler of the name is called
  with the arguments. An exception that leaves a handler is raised again by \<open>get_cmd\<close>
  and ends the connection.
\<close>

datatype command = ClearBoard | Boardsize string | Play string string

fun exec :: "gtp \<Rightarrow> command \<Rightarrow> exn + (reply \<times> gtp)" where
  "exec s ClearBoard = clear_board_cmd s []"
| "exec s (Boardsize n) = boardsize_cmd s [n]"
| "exec s (Play c mv) = Inr (play_cmd s [c, mv])"

text \<open>A session: the replies to the commands and the connection after the last one.\<close>

fun run :: "gtp \<Rightarrow> command list \<Rightarrow> exn + (reply list \<times> gtp)" where
  "run s [] = Inr ([], s)"
| "run s (c # cs) =
     (case exec s c of
        Inl e \<Rightarrow> Inl e
      | Inr (r, s') \<Rightarrow>
          (case run s' cs of
             Inl e \<Rightarrow> Inl e
           | Inr (rs, s'') \<Rightarrow> Inr (r # rs, s'')))"

text \<open>
  A session in which \<open>boardsize\<close> follows a recorded stone: the board is empty again,
  the tracker is not. The stone on a1 is then counted together with the entry that the
  tracker still holds for b1, and the stone on b1 goes to a cell that the tracker holds.
\<close>

definition stale_session :: "command list" where
  "stale_session =
     [ClearBoard, Play ''b'' ''b1'', Boardsize ''5'', Play ''b'' ''a1'', Play ''b'' ''b1'']"

section \<open>Runs of stones and what the tracker stores\<close>

text \<open>
  The cell \<open>j\<close> steps from \<open>c\<close> along a direction, counted towards the second
  neighbour of the source (down, right, rightDown, rightUp); negative \<open>j\<close> goes
  towards the first one.
\<close>

fun step :: "direction \<Rightarrow> cell \<Rightarrow> int \<Rightarrow> cell" where
  "step UpDown (r, c) j = (r + j, c)"
| "step LeftRight (r, c) j = (r, c + j)"
| "step Backslash (r, c) j = (r + j, c + j)"
| "step Forwardslash (r, c) j = (r + j, c - j)"

definition dict_keys :: "move_dict \<Rightarrow> cell set" where
  "dict_keys D = fst ` set D"

text \<open>The length that the dictionary stores for a cell and a direction.\<close>

definition stored :: "move_dict \<Rightarrow> direction \<Rightarrow> cell \<Rightarrow> int option" where
  "stored D d x = map_option (get_run d) (map_of D x)"

text \<open>
  A maximal contiguous run of \<open>n\<close> stones of the set \<open>K\<close> along \<open>d\<close>: the cells
  \<open>c\<close>, one step further, up to \<open>n - 1\<close> steps further are in \<open>K\<close>, and the cell
  before \<open>c\<close> and the cell after the last one are not.
\<close>

definition maximal_run :: "cell set \<Rightarrow> direction \<Rightarrow> cell \<Rightarrow> nat \<Rightarrow> bool" where
  "maximal_run K d c n =
     (0 < n \<and> (\<forall>j<n. step d c (int j) \<in> K) \<and>
      step d c (- 1) \<notin> K \<and> step d c (int n) \<notin> K)"

text \<open>Every cell of every maximal run stores the number of stones of the run.\<close>

definition uniform_dir :: "cell set \<Rightarrow> move_dict \<Rightarrow> direction \<Rightarrow> bool" where
  "uniform_dir K D d =
     (\<forall>c n. maximal_run K d c n \<longrightarrow> (\<forall>j<n. stored D d (step d c (int j)) = Some (int n)))"

definition run_uniform :: "move_dict \<Rightarrow> bool" where
  "run_uniform D = (\<forall>d. uniform_dir (dict_keys D) D d)"

text \<open>The cells on which the player \<open>p\<close> has placed a stone in the calls \<open>ms\<close>.\<close>

definition stones :: "string \<Rightarrow> (string \<times> cell \<times> int) list \<Rightarrow> cell set" where
  "stones p ms = set (map (fst \<circ> snd) (filter (\<lambda>x. lower (fst x) = p) ms))"

text \<open>The dictionary of the player \<open>''w''\<close> or \<open>''b''\<close>.\<close>

definition dict_of :: "string \<Rightarrow> gtp \<Rightarrow> move_dict option" where
  "dict_of p s = (if p = ''w'' then dictStoreWhiteMove s else dictStoreBlackMove s)"

text \<open>
  The state of the tracker after the placements \<open>ms\<close>: both dictionaries exist, hold
  exactly the stones of their player and satisfy the invariant, and \<open>colorMax\<close> has its
  two entries.
\<close>

definition tracked :: "(string \<times> cell \<times> int) list \<Rightarrow> gtp \<Rightarrow> bool" where
  "tracked ms s =
     (\<exists>Db Dw cm mb mw.
        dictStoreBlackMove s = Some Db \<and> dictStoreWhiteMove s = Some Dw \<and>
        dict_keys Db = stones ''b'' ms \<and> dict_keys Dw = stones ''w'' ms \<and>
        run_uniform Db \<and> run_uniform Dw \<and>
        colorMax s = Some cm \<and> map_of cm ''b'' = Some mb \<and> map_of cm ''w'' = Some mw)"

text \<open>The cells of the board that hold a stone of the colour \<open>c\<close>.\<close>

definition board_stones :: "go_board \<Rightarrow> color \<Rightarrow> cell set" where
  "board_stones b c =
     set [(row, col). row \<leftarrow> [1..bd_size b], col \<leftarrow> [1..bd_size b],
          bd_array b (coord_to_point row col (bd_size b)) = c]"

text \<open>
  The tracker is in step with the board: both dictionaries exist, hold exactly the
  cells of the board with a stone of their player and satisfy the invariant, and
  \<open>colorMax\<close> has its two entries.
\<close>

definition in_step :: "gtp \<Rightarrow> bool" where
  "in_step s =
     (\<exists>Db Dw cm mb mw.
        dictStoreBlackMove s = Some Db \<and> dictStoreWhiteMove s = Some Dw \<and>
        dict_keys Db = board_stones (board s) BLACK \<and>
        dict_keys Dw = board_stones (board s) WHITE \<and>
        run_uniform Db \<and> run_uniform Dw \<and>
        colorMax s = Some cm \<and> map_of cm ''b'' = Some mb \<and> map_of cm ''w'' = Some mw)"

section \<open>The recorded maximum never decreases\<close>

lemma raise_max_mono:
  "raise_max cm key vs = Inr cm' \<Longrightarrow> map_of cm p = Some v \<Longrightarrow>
   \<exists>v'. map_of cm' p = Some v' \<and> v \<le> v'"
proof (induction vs arbitrary: cm v)
  case Nil
  then show ?case by simp
next
  case (Cons a vs)
  from Cons.prems(1) obtain m where m: "map_of cm key = Some m"
    by (auto split: option.splits)
  let ?cm1 = "if a > m then AList.update key a cm else cm"
  from Cons.prems(1) m have r: "raise_max ?cm1 key vs = Inr cm'"
    by simp
  have "\<exists>v1. map_of ?cm1 p = Some v1 \<and> v \<le> v1"
    using Cons.prems(2) m by (cases "p = key") (auto simp: update_conv')
  then obtain v1 where v1: "map_of ?cm1 p = Some v1" "v \<le> v1"
    by blast
  from Cons.IH [OF r v1(1)] v1(2) show ?case
    by fastforce
qed

lemma insertKeyIntoDict_colorMax_mono:
  assumes "insertKeyIntoDict s color coord move = (e, s')"
    and "colorMax s = Some cm" and "map_of cm p = Some v"
  shows "\<exists>cm' v'. colorMax s' = Some cm' \<and> map_of cm' p = Some v' \<and> v \<le> v'"
  using assms unfolding insertKeyIntoDict_def Let_def
  by (auto split: option.splits sum.splits if_splits dest: raise_max_mono)

lemma insert_all_append:
  "insert_all s (xs @ ys) = insert_all (insert_all s xs) ys"
  by (induction xs arbitrary: s) auto

lemma insert_all_colorMax_mono:
  assumes "colorMax s = Some cm" and "map_of cm p = Some v"
  shows "\<exists>cm' v'. colorMax (insert_all s ps) = Some cm' \<and> map_of cm' p = Some v' \<and> v \<le> v'"
  using assms
proof (induction ps arbitrary: s cm v)
  case Nil
  then show ?case by simp
next
  case (Cons x ps)
  obtain color coord move where x: "x = (color, coord, move)"
    by (cases x) auto
  obtain e s1 where s1: "insertKeyIntoDict s color coord move = (e, s1)"
    by (cases "insertKeyIntoDict s color coord move")
  from insertKeyIntoDict_colorMax_mono [OF s1 Cons.prems]
  obtain cm1 v1 where 1: "colorMax s1 = Some cm1" "map_of cm1 p = Some v1" "v \<le> v1"
    by blast
  from Cons.IH [OF 1(1,2)] 1(3) show ?case
    using x s1 by fastforce
qed

text \<open>
  Claim C5. Within one game, that is along any sequence \<open>xs\<close> of calls of
  \<open>insertKeyIntoDict\<close> that starts on a connection whose \<open>colorMax\<close> has an entry
  for the player \<open>p\<close>, the entry of \<open>p\<close> after one more placement \<open>x\<close> is greater
  than or equal to its value before that placement, which in turn is at least the value
  the game started with.
\<close>

theorem colorMax_non_decreasing:
  assumes "colorMax s = Some cm" and "map_of cm p = Some v"
  shows "\<exists>cm1 v1 cm2 v2.
           colorMax (insert_all s xs) = Some cm1 \<and> map_of cm1 p = Some v1 \<and>
           colorMax (insert_all s (xs @ [x])) = Some cm2 \<and> map_of cm2 p = Some v2 \<and>
           v \<le> v1 \<and> v1 \<le> v2"
proof -
  from insert_all_colorMax_mono [OF assms, of xs]
  obtain cm1 v1 where 1: "colorMax (insert_all s xs) = Some cm1" "map_of cm1 p = Some v1" "v \<le> v1"
    by blast
  from insert_all_colorMax_mono [OF 1(1,2), of "[x]"]
  obtain cm2 v2 where 2: "colorMax (insert_all (insert_all s xs) [x]) = Some cm2"
      "map_of cm2 p = Some v2" "v1 \<le> v2"
    by blast
  show ?thesis
    using 1 2 by (simp add: insert_all_append)
qed

theorem colorMax_non_decreasing_witness:
  "colorMax (new_game 5) = Some [(''b'', 0), (''w'', 0)] \<and>
   map_of [(''b'', 0 :: int), (''w'', 0)] ''b'' = Some 0 \<and>
   (\<exists>cm1 v1 cm2 v2.
      colorMax (insert_all (new_game 5) [(''b'', (1, 1), 7)]) = Some cm1 \<and>
      map_of cm1 ''b'' = Some v1 \<and>
      colorMax (insert_all (new_game 5) ([(''b'', (1, 1), 7)] @ [(''B'', (1, 2), 8)])) = Some cm2 \<and>
      map_of cm2 ''b'' = Some v2 \<and> 0 \<le> v1 \<and> v1 \<le> v2)"
proof -
  have h1: "colorMax (new_game 5) = Some [(''b'', 0), (''w'', 0)]"
    by (simp add: new_game_def)
  have h2: "map_of [(''b'', 0 :: int), (''w'', 0)] ''b'' = Some 0"
    by simp
  from colorMax_non_decreasing [OF h1 h2, of "[(''b'', (1, 1), 7)]" "(''B'', (1, 2), 8)"]
  show ?thesis
    using h1 h2 by blast
qed

section \<open>The play command\<close>

lemma move_to_coord_Some_not_pass:
  "move_to_coord mv n = Inr (Some coord) \<Longrightarrow> lower mv \<noteq> ''pass''"
  by (auto simp: move_to_coord_def Let_def split: if_splits)

lemma play_cmd_without_colorMax:
  assumes "colorMax s = None" and "play_cmd s args = (r, s')"
  shows "colorMax s' = None \<and> dictStoreWhiteMove s' = dictStoreWhiteMove s \<and>
         dictStoreBlackMove s' = dictStoreBlackMove s"
  using assms unfolding play_cmd_def play_body_def one_side_won_def Let_def
  by (auto split: list.splits sum.splits option.splits if_splits prod.splits)

lemma boardsize_cmd_tracker:
  assumes "boardsize_cmd s args = Inr (r, s')"
  shows "colorMax s' = colorMax s \<and> dictStoreWhiteMove s' = dictStoreWhiteMove s \<and>
         dictStoreBlackMove s' = dictStoreBlackMove s"
  using assms unfolding boardsize_cmd_def
  by (auto split: list.splits sum.splits)

lemma never_cleared_tracker:
  "never_cleared s \<Longrightarrow>
   colorMax s = None \<and> dictStoreWhiteMove s = None \<and> dictStoreBlackMove s = None"
proof (induction rule: never_cleared.induct)
  case (fresh b)
  show ?case by (simp add: init_def)
next
  case (play s args r s')
  then show ?case using play_cmd_without_colorMax [of s args r s'] by simp
next
  case (boardsize s args r s')
  then show ?case using boardsize_cmd_tracker [of s args r s'] by simp
qed

text \<open>
  Claim C10. On a connection on which \<open>clear_board_cmd\<close> was never executed,
  \<open>colorMax\<close> does not exist and both move dictionaries are \<open>None\<close>; a play command
  with any colour \<open>c\<close> and a valid coordinate other than pass is answered with the text
  \<open>Error: ...\<close> of the exception handler of \<open>play_cmd\<close>, and leaves the connection as
  it was, so no stone is recorded.
\<close>

theorem play_before_clear_board:
  assumes "never_cleared s"
    and "move_to_coord mv (bd_size (board s)) = Inr (Some coord)"
  shows "colorMax s = None \<and> dictStoreWhiteMove s = None \<and> dictStoreBlackMove s = None \<and>
         (\<exists>msg. play_cmd s [c, mv] = (Respond (''Error: '' @ msg), s))"
proof -
  have t: "colorMax s = None \<and> dictStoreWhiteMove s = None \<and> dictStoreBlackMove s = None"
    using assms(1) by (rule never_cleared_tracker)
  have np: "lower mv \<noteq> ''pass''"
    using assms(2) by (rule move_to_coord_Some_not_pass)
  have "\<exists>msg. play_cmd s [c, mv] = (Respond (''Error: '' @ msg), s)"
    using t np assms(2) unfolding play_cmd_def play_body_def one_side_won_def Let_def
    by (auto split: sum.splits)
  with t show ?thesis by simp
qed

lemma move_to_coord_a1: "move_to_coord ''a1'' 5 = Inr (Some (1, 1))"
  by code_simp

theorem play_before_clear_board_witness:
  "never_cleared (init (empty_board 5)) \<and>
   move_to_coord ''a1'' (bd_size (board (init (empty_board 5)))) = Inr (Some (1, 1)) \<and>
   colorMax (init (empty_board 5)) = None \<and>
   (\<exists>msg. play_cmd (init (empty_board 5)) [''b'', ''a1''] =
       (Respond (''Error: '' @ msg), init (empty_board 5)))"
proof -
  have h1: "never_cleared (init (empty_board 5))"
    by (rule never_cleared.fresh)
  have h2: "move_to_coord ''a1'' (bd_size (board (init (empty_board 5)))) = Inr (Some (1, 1))"
    by (simp add: init_def empty_board_def move_to_coord_a1)
  from play_before_clear_board [OF h1 h2, of "''b''"] h1 h2 show ?thesis
    by blast
qed

text \<open>
  Claim C8. A play command whose move is \<open>pass\<close> in any mix of upper and lower case,
  for a colour \<open>c\<close> that is \<open>b\<close> or \<open>w\<close> in either case, is accepted, leaves both move
  dictionaries, \<open>colorMax\<close> and the occupancy of the board unchanged, and sets the
  current player to the opponent of \<open>c\<close>.
\<close>

theorem pass_leaves_tracker:
  assumes "lower mv = ''pass''" and "lower c = ''b'' \<or> lower c = ''w''"
  shows "fst (play_cmd s [c, mv]) = Respond [] \<and>
         dictStoreWhiteMove (snd (play_cmd s [c, mv])) = dictStoreWhiteMove s \<and>
         dictStoreBlackMove (snd (play_cmd s [c, mv])) = dictStoreBlackMove s \<and>
         colorMax (snd (play_cmd s [c, mv])) = colorMax s \<and>
         bd_array (board (snd (play_cmd s [c, mv]))) = bd_array (board s) \<and>
         current_player (board (snd (play_cmd s [c, mv]))) =
           (if lower c = ''b'' then WHITE else BLACK)"
  using assms unfolding play_cmd_def play_body_def color_to_int_def Let_def
  by auto

theorem pass_leaves_tracker_witness:
  "lower ''PaSs'' = ''pass'' \<and> lower ''B'' = ''b'' \<and>
   fst (play_cmd (new_game 5) [''B'', ''PaSs'']) = Respond [] \<and>
   dictStoreBlackMove (snd (play_cmd (new_game 5) [''B'', ''PaSs''])) = Some [] \<and>
   colorMax (snd (play_cmd (new_game 5) [''B'', ''PaSs''])) = Some [(''b'', 0), (''w'', 0)] \<and>
   current_player (board (snd (play_cmd (new_game 5) [''B'', ''PaSs'']))) = WHITE"
proof -
  have h1: "lower ''PaSs'' = ''pass''"
    by code_simp
  have h2: "lower ''B'' = ''b''"
    by code_simp
  from pass_leaves_tracker [OF h1, of "''B''" "new_game 5"] h1 h2 show ?thesis
    by (simp add: new_game_def)
qed

text \<open>
  Claim C4. A play command is rejected when its coordinate does not parse or lies off
  the board (\<open>move_to_coord\<close> raises), when the cell it names is not empty, or when one
  side has already reached 5. In each of these cases the occupancy of the board, both
  move dictionaries and \<open>colorMax\<close> are the same after the call as before it; and unless
  the move is a pass the reply is not the empty reply of an accepted move and the whole
  connection is unchanged.
\<close>

theorem rejected_play_changes_nothing:
  assumes "(\<exists>e. move_to_coord mv (bd_size (board s)) = Inl e) \<or>
           (\<exists>row col. move_to_coord mv (bd_size (board s)) = Inr (Some (row, col)) \<and>
              bd_array (board s) (coord_to_point row col (bd_size (board s))) \<noteq> EMPTY) \<or>
           one_side_won s = Inr True"
  shows "bd_array (board (snd (play_cmd s [c, mv]))) = bd_array (board s) \<and>
         dictStoreWhiteMove (snd (play_cmd s [c, mv])) = dictStoreWhiteMove s \<and>
         dictStoreBlackMove (snd (play_cmd s [c, mv])) = dictStoreBlackMove s \<and>
         colorMax (snd (play_cmd s [c, mv])) = colorMax s \<and>
         (lower mv \<noteq> ''pass'' \<longrightarrow>
            fst (play_cmd s [c, mv]) \<noteq> Respond [] \<and> snd (play_cmd s [c, mv]) = s)"
  using assms unfolding play_cmd_def play_body_def Let_def
  by (auto split: sum.splits option.splits)

theorem rejected_play_changes_nothing_witness:
  "bd_array (board (play_all (new_game 5) [[''b'', ''a1'']])) (coord_to_point 1 1 5) = BLACK \<and>
   fst (play_cmd (play_all (new_game 5) [[''b'', ''a1'']]) [''w'', ''A1'']) \<noteq> Respond [] \<and>
   snd (play_cmd (play_all (new_game 5) [[''b'', ''a1'']]) [''w'', ''A1'']) =
     play_all (new_game 5) [[''b'', ''a1'']] \<and>
   fst (play_cmd (new_game 5) [''w'', ''f9'']) \<noteq> Respond [] \<and>
   snd (play_cmd (new_game 5) [''w'', ''f9'']) = new_game 5"
proof -
  let ?s = "play_all (new_game 5) [[''b'', ''a1'']]"
  have a: "move_to_coord ''A1'' (bd_size (board ?s)) = Inr (Some (1, 1))"
    by code_simp
  have b: "bd_array (board ?s) (coord_to_point 1 1 (bd_size (board ?s))) = BLACK"
    by code_simp
  have b': "bd_array (board ?s) (coord_to_point 1 1 5) = BLACK"
    by code_simp
  have h: "(\<exists>e. move_to_coord ''A1'' (bd_size (board ?s)) = Inl e) \<or>
           (\<exists>row col. move_to_coord ''A1'' (bd_size (board ?s)) = Inr (Some (row, col)) \<and>
              bd_array (board ?s) (coord_to_point row col (bd_size (board ?s))) \<noteq> EMPTY) \<or>
           one_side_won ?s = Inr True"
    using a b by auto
  have np: "lower ''A1'' \<noteq> ''pass''"
    by code_simp
  have "isl (move_to_coord ''f9'' (bd_size (board (new_game 5))))"
    by code_simp
  then have c: "\<exists>e. move_to_coord ''f9'' (bd_size (board (new_game 5))) = Inl e"
    by (cases "move_to_coord ''f9'' (bd_size (board (new_game 5)))") auto
  have np2: "lower ''f9'' \<noteq> ''pass''"
    by code_simp
  from rejected_play_changes_nothing [OF h, of "''w''"] np
    rejected_play_changes_nothing [OF disjI1 [OF c], of "''w''"] np2 b'
  show ?thesis
    by blast
qed

section \<open>The final result\<close>

lemma final_result_full_board:
  "get_empty_points (board s) = [] \<Longrightarrow>
   gogui_rules_final_result_cmd s args = Inr (Respond ''draw'', s)"
  by (simp add: gogui_rules_final_result_cmd_def)

text \<open>
  Claim C3, as stated, fails: after the 25 commands of \<open>full_game ''w'' ''b''\<close> the
  recorded maximum of White is 5, no empty point is left, and the final result is
  \<open>draw\<close>, not \<open>white win\<close>.
\<close>

theorem final_result_draw_counterexample:
  "colorMax (play_all (new_game 5) (full_game ''w'' ''b'')) = Some [(''b'', 4), (''w'', 5)] \<and>
   get_empty_points (board (play_all (new_game 5) (full_game ''w'' ''b''))) = [] \<and>
   gogui_rules_final_result_cmd (play_all (new_game 5) (full_game ''w'' ''b'')) [] =
     Inr (Respond ''draw'', play_all (new_game 5) (full_game ''w'' ''b''))"
proof -
  have 1: "colorMax (play_all (new_game 5) (full_game ''w'' ''b'')) = Some [(''b'', 4), (''w'', 5)]"
    by code_simp
  have 2: "get_empty_points (board (play_all (new_game 5) (full_game ''w'' ''b''))) = []"
    by code_simp
  show ?thesis
    using 1 2 final_result_full_board [OF 2] by simp
qed

text \<open>
  Claim C3, amended. The board-full test comes first: when no empty point remains the
  final result is \<open>draw\<close> whatever the recorded maxima are. When at least one empty
  point remains, a recorded maximum of White of at least 5 gives \<open>white win\<close>, and a
  recorded maximum of Black of at least 5, with White below 5, gives \<open>black win\<close>.
\<close>

theorem final_result_winner:
  assumes "colorMax s = Some cm" and "map_of cm ''w'' = Some w" and "map_of cm ''b'' = Some b"
  shows "(get_empty_points (board s) = [] \<longrightarrow>
            gogui_rules_final_result_cmd s args = Inr (Respond ''draw'', s)) \<and>
         (get_empty_points (board s) \<noteq> [] \<and> 5 \<le> w \<longrightarrow>
            gogui_rules_final_result_cmd s args = Inr (Respond ''white win'', s)) \<and>
         (get_empty_points (board s) \<noteq> [] \<and> w < 5 \<and> 5 \<le> b \<longrightarrow>
            gogui_rules_final_result_cmd s args = Inr (Respond ''black win'', s))"
  using assms by (simp add: gogui_rules_final_result_cmd_def)

theorem final_result_winner_witness:
  "colorMax (play_all (new_game 5)
      [[''w'', ''a1''], [''w'', ''b1''], [''w'', ''c1''], [''w'', ''d1''], [''w'', ''e1'']]) =
     Some [(''b'', 0), (''w'', 5)] \<and>
   gogui_rules_final_result_cmd (play_all (new_game 5)
      [[''w'', ''a1''], [''w'', ''b1''], [''w'', ''c1''], [''w'', ''d1''], [''w'', ''e1'']]) [] =
     Inr (Respond ''white win'', play_all (new_game 5)
      [[''w'', ''a1''], [''w'', ''b1''], [''w'', ''c1''], [''w'', ''d1''], [''w'', ''e1'']])"
proof -
  let ?s = "play_all (new_game 5)
      [[''w'', ''a1''], [''w'', ''b1''], [''w'', ''c1''], [''w'', ''d1''], [''w'', ''e1'']]"
  have 1: "colorMax ?s = Some [(''b'', 0), (''w'', 5)]"
    by code_simp
  have 2: "map_of [(''b'', 0 :: int), (''w'', 5)] ''w'' = Some 5"
    by simp
  have 3: "map_of [(''b'', 0 :: int), (''w'', 5)] ''b'' = Some 0"
    by simp
  have 4: "get_empty_points (board ?s) \<noteq> []"
    by code_simp
  from final_result_winner [OF 1 2 3, of "[]"] 1 4 show ?thesis
    by simp
qed

section \<open>Resetting the tracker\<close>

lemma clear_board_cmd_resets:
  assumes "2 \<le> bd_size (board s)" and "bd_size (board s) \<le> MAXSIZE"
  shows "\<exists>s'. clear_board_cmd s args = Inr (Respond [], s') \<and>
           dictStoreWhiteMove s' = Some [] \<and> dictStoreBlackMove s' = Some [] \<and>
           colorMax s' = Some [(''b'', 0), (''w'', 0)] \<and>
           board s' = empty_board (bd_size (board s))"
  using assms by (simp add: clear_board_cmd_def reset_def)

lemma clear_board_cmd_new_game:
  "2 \<le> n \<Longrightarrow> n \<le> MAXSIZE \<Longrightarrow>
   clear_board_cmd (init (empty_board n)) args = Inr (Respond [], new_game n)"
  by (simp add: clear_board_cmd_def reset_def init_def new_game_def empty_board_def)

lemma boardsize_cmd_valid:
  "py_int a = Inr n \<Longrightarrow> 2 \<le> n \<Longrightarrow> n \<le> MAXSIZE \<Longrightarrow>
   boardsize_cmd s (a # args) = Inr (Respond [], s\<lparr>board := empty_board n\<rparr>)"
  by (simp add: boardsize_cmd_def reset_def)

text \<open>
  Claim C7 holds for \<open>clear_board_cmd\<close> (lemma \<open>clear_board_cmd_resets\<close>) and fails
  for \<open>boardsize_cmd\<close>, which resets the board and leaves the tracker as it is: after
  \<open>play b a1\<close> on a new game, \<open>boardsize 7\<close> gives an empty board of size 7 while the
  black dictionary still holds the cell (1, 1) and the recorded maximum of Black is
  still 1.
\<close>

theorem boardsize_keeps_tracker:
  "boardsize_cmd (play_all (new_game 5) [[''b'', ''a1'']]) [''7''] =
     Inr (Respond [], (play_all (new_game 5) [[''b'', ''a1'']])\<lparr>board := empty_board 7\<rparr>) \<and>
   dictStoreBlackMove ((play_all (new_game 5) [[''b'', ''a1'']])\<lparr>board := empty_board 7\<rparr>) =
     Some [((1, 1), fresh_runs)] \<and>
   colorMax ((play_all (new_game 5) [[''b'', ''a1'']])\<lparr>board := empty_board 7\<rparr>) =
     Some [(''b'', 1), (''w'', 0)]"
proof -
  have 1: "py_int ''7'' = Inr 7"
    by code_simp
  have 2: "dictStoreBlackMove (play_all (new_game 5) [[''b'', ''a1'']]) = Some [((1, 1), fresh_runs)]"
    by code_simp
  have 3: "colorMax (play_all (new_game 5) [[''b'', ''a1'']]) = Some [(''b'', 1), (''w'', 0)]"
    by code_simp
  show ?thesis
    using boardsize_cmd_valid [OF 1, of "play_all (new_game 5) [[''b'', ''a1'']]" "[]"] 2 3
    by (simp add: MAXSIZE_def)
qed

section \<open>Coordinates and their text\<close>

lemma move_to_coord_range:
  assumes "move_to_coord t n = Inr (Some (row, col))"
  shows "1 \<le> row \<and> row \<le> n \<and> 1 \<le> col \<and> col \<le> n"
  using assms unfolding move_to_coord_def parse_point_def Let_def
  by (auto split: if_splits sum.splits list.splits prod.splits
      simp: less_eq_char_def less_char_def)

lemma move_to_coord_error:
  "move_to_coord t n = Inl e \<Longrightarrow> \<exists>m. e = ValueError m"
  unfolding move_to_coord_def Let_def
  by (auto split: if_splits sum.splits prod.splits)

lemma round_trip_columns:
  "list_all (\<lambda>col.
      case py_index column_letters (col - 1) of
        Inl e \<Rightarrow> False
      | Inr l \<Rightarrow>
          lower_char l = l \<and> CHR ''a'' \<le> l \<and> l \<le> CHR ''z'' \<and> l \<noteq> CHR ''i'' \<and>
          (if l < CHR ''i'' then int (of_char l) - int (of_char (CHR ''a'')) + 1
           else int (of_char l) - int (of_char (CHR ''a''))) = col)
      [1..24]"
  by code_simp

lemma round_trip_rows:
  "list_all (\<lambda>row. lower (str row) = str row \<and> py_int (str row) = Inr row \<and> str row \<noteq> ''ass'')
      [1..24]"
  by code_simp

text \<open>
  Away from the row and the column \<open>MAXSIZE\<close> the two functions are inverse: on a
  board of size \<open>n\<close>, \<open>move_to_coord\<close> reads the text that \<open>format_point\<close> gives
  for a cell back as that cell.
\<close>

lemma format_point_round_trip:
  assumes "2 \<le> n" and "n \<le> MAXSIZE"
    and "1 \<le> row" and "row \<le> n" and "1 \<le> col" and "col \<le> n"
    and "row < MAXSIZE" and "col < MAXSIZE"
  shows "\<exists>t. format_point (Some (row, col)) = Inr t \<and> move_to_coord t n = Inr (Some (row, col))"
proof -
  have "row \<in> set [1..24]" and "col \<in> set [1..24]"
    using assms by (simp_all add: MAXSIZE_def)
  with round_trip_columns round_trip_rows
  have c: "case py_index column_letters (col - 1) of
        Inl e \<Rightarrow> False
      | Inr l \<Rightarrow>
          lower_char l = l \<and> CHR ''a'' \<le> l \<and> l \<le> CHR ''z'' \<and> l \<noteq> CHR ''i'' \<and>
          (if l < CHR ''i'' then int (of_char l) - int (of_char (CHR ''a'')) + 1
           else int (of_char l) - int (of_char (CHR ''a''))) = col"
    and r: "lower (str row) = str row \<and> py_int (str row) = Inr row \<and> str row \<noteq> ''ass''"
    unfolding list_all_iff by blast+
  from c obtain l where l: "py_index column_letters (col - 1) = Inr l"
    "lower_char l = l" "CHR ''a'' \<le> l" "l \<le> CHR ''z''" "l \<noteq> CHR ''i''"
    "(if l < CHR ''i'' then int (of_char l) - int (of_char (CHR ''a'')) + 1
      else int (of_char l) - int (of_char (CHR ''a''))) = col"
    by (auto split: sum.splits)
  have f: "format_point (Some (row, col)) = Inr (l # str row)"
    using assms(3,5,7,8) l(1) by (simp add: format_point_def)
  have low: "lower (l # str row) = l # str row"
    using l(2) r by (simp add: lower_def)
  have np: "l # str row \<noteq> ''pass''"
    using r by auto
  have pp: "parse_point (l # str row) = Inr (row, col)"
    using l(3-6) r assms(3) by (auto simp: parse_point_def Let_def split: if_splits)
  have "move_to_coord (l # str row) n = Inr (Some (row, col))"
    using assms(1,2,4,6) np pp low by (simp only: move_to_coord_def Let_def) simp
  with f show ?thesis
    by simp
qed

lemma column_nine_is_j:
  "format_point (Some (1, 9)) = Inr ''j1'' \<and> move_to_coord ''j1'' 9 = Inr (Some (1, 9)) \<and>
   isl (move_to_coord ''i1'' 9)"
  by code_simp

text \<open>
  Claim C9 fails on the last row and the last column of the largest board:
  \<open>move_to_coord\<close> accepts \<open>a25\<close> on a board of size \<open>MAXSIZE = 25\<close> as the cell
  (25, 1), and \<open>format_point\<close> raises \<open>ValueError\<close> for that cell, because its range test
  is \<open>0 <= row < MAXSIZE\<close>. On every other cell the round trip holds, and
  \<open>move_to_coord\<close> returns cells of the board only and raises \<open>ValueError\<close> only.
\<close>

theorem format_point_last_row:
  "move_to_coord ''a25'' MAXSIZE = Inr (Some (25, 1)) \<and>
   format_point (Some (25, 1)) = Inl (ValueError [])"
  by code_simp

theorem format_point_last_row_witness:
  "format_point (Some (25, 1)) \<noteq> Inr ''a25''"
  using format_point_last_row by simp

section \<open>What one placement does to a dictionary\<close>

lemma nbr_First: "nbr d First c k = step d c (- 1 - k)"
  by (cases d; cases c) simp_all

lemma nbr_Second: "nbr d Second c k = step d c (1 + k)"
  by (cases d; cases c) simp_all

lemma step_step: "step d (step d c i) j = step d c (i + j)"
  by (cases d; cases c) simp_all

lemma step_inj: "step d c i = step d c j \<longleftrightarrow> i = j"
  by (cases d; cases c) auto

lemma step_0: "step d c 0 = c"
  by (cases d; cases c) simp_all

lemma nbr_inj: "nbr d sd c i = nbr d sd c j \<longleftrightarrow> i = j"
  by (cases sd) (auto simp: nbr_First nbr_Second step_inj)

lemma nbr_not_coord: "0 \<le> k \<Longrightarrow> nbr d sd c k \<noteq> c"
  by (cases d; cases sd; cases c) auto

lemma get_set_run: "get_run d' (set_run d v r) = (if d' = d then v else get_run d' r)"
  by (cases d; cases d') simp_all

lemma set_run_same: "set_run d (get_run d r) r = r"
  by (cases d) simp_all

lemma dict_keys_dom: "dict_keys D = dom (map_of D)"
  by (simp add: dict_keys_def dom_map_of_conv_image_fst)

lemma walk_unfold:
  "walk D coord d sd k =
     (case map_of D (nbr d sd coord k) of
        None \<Rightarrow> Inr D
      | Some r \<Rightarrow>
          (case map_of D coord of
             None \<Rightarrow> Inl (TypeError ''NoneType object is not subscriptable'')
           | Some rc \<Rightarrow>
               walk (AList.map_entry (nbr d sd coord k) (set_run d (get_run d rc)) D)
                    coord d sd (k + 1)))"
  by (rule walk.simps)

declare walk.simps [simp del]

text \<open>
  A propagation loop that finds \<open>m\<close> cells of the dictionary in a row, from the
  \<open>k\<close>-th neighbour on, writes the placed cell's length into exactly these cells.
\<close>

lemma walk_run:
  assumes "map_of D coord = Some rc" and "0 \<le> k"
    and "\<forall>i. k \<le> i \<and> i < k + int m \<longrightarrow> nbr d sd coord i \<in> dom (map_of D)"
    and "nbr d sd coord (k + int m) \<notin> dom (map_of D)"
  shows "\<exists>D'. walk D coord d sd k = Inr D' \<and>
           map_of D' =
             (\<lambda>x. if \<exists>i. k \<le> i \<and> i < k + int m \<and> x = nbr d sd coord i
                  then map_option (set_run d (get_run d rc)) (map_of D x)
                  else map_of D x)"
  using assms
proof (induction m arbitrary: D k)
  case 0
  then have "map_of D (nbr d sd coord k) = None"
    by (simp add: domIff)
  then show ?case
    by (auto simp add: walk_unfold [of D] fun_eq_iff)
next
  case (Suc m)
  let ?nb = "nbr d sd coord k"
  let ?f = "set_run d (get_run d rc)"
  let ?D1 = "AList.map_entry ?nb ?f D"
  from Suc.prems(3) have "?nb \<in> dom (map_of D)"
    by simp
  then obtain r where r: "map_of D ?nb = Some r"
    by auto
  have ne: "?nb \<noteq> coord"
    using Suc.prems(2) by (rule nbr_not_coord)
  have m1: "map_of ?D1 = (map_of D)(?nb \<mapsto> ?f r)"
    by (simp add: map_of_map_entry r)
  have c1: "map_of ?D1 coord = Some rc"
    using ne Suc.prems(1) by (simp add: m1)
  have dom1: "dom (map_of ?D1) = dom (map_of D)"
    using r by (auto simp: m1)
  have w: "walk D coord d sd k = walk ?D1 coord d sd (k + 1)"
    by (simp add: walk_unfold [of D] r Suc.prems(1))
  have p3: "\<forall>i. k + 1 \<le> i \<and> i < k + 1 + int m \<longrightarrow> nbr d sd coord i \<in> dom (map_of ?D1)"
    using Suc.prems(3) by (simp add: dom1)
  have p4: "nbr d sd coord (k + 1 + int m) \<notin> dom (map_of ?D1)"
    using Suc.prems(4) by (simp add: dom1 add.commute add.left_commute)
  from Suc.IH [OF c1 _ p3 p4] Suc.prems(2)
  obtain D' where D': "walk ?D1 coord d sd (k + 1) = Inr D'"
    and mD': "map_of D' =
             (\<lambda>x. if \<exists>i. k + 1 \<le> i \<and> i < k + 1 + int m \<and> x = nbr d sd coord i
                  then map_option ?f (map_of ?D1 x)
                  else map_of ?D1 x)"
    by auto
  have "map_of D' x =
          (if \<exists>i. k \<le> i \<and> i < k + int (Suc m) \<and> x = nbr d sd coord i
           then map_option ?f (map_of D x) else map_of D x)" for x
  proof (cases "x = ?nb")
    case True
    have A: "\<not> (\<exists>i. k + 1 \<le> i \<and> i < k + 1 + int m \<and> x = nbr d sd coord i)"
      using True by (auto simp: nbr_inj)
    have B: "\<exists>i. k \<le> i \<and> i < k + int (Suc m) \<and> x = nbr d sd coord i"
      using True by (intro exI [of _ k]) simp
    have "map_of D' x = map_of ?D1 x"
      by (simp only: mD' A if_False)
    also have "\<dots> = Some (?f r)"
      by (simp only: m1 True fun_upd_same)
    also have "\<dots> = map_option ?f (map_of D x)"
      by (simp only: True r option.map)
    finally show ?thesis
      by (simp only: B if_True)
  next
    case False
    have E: "(\<exists>i. k + 1 \<le> i \<and> i < k + 1 + int m \<and> x = nbr d sd coord i) \<longleftrightarrow>
          (\<exists>i. k \<le> i \<and> i < k + int (Suc m) \<and> x = nbr d sd coord i)"
    proof
      assume "\<exists>i. k + 1 \<le> i \<and> i < k + 1 + int m \<and> x = nbr d sd coord i"
      then obtain i where "k + 1 \<le> i" "i < k + 1 + int m" "x = nbr d sd coord i"
        by blast
      then show "\<exists>i. k \<le> i \<and> i < k + int (Suc m) \<and> x = nbr d sd coord i"
        by (intro exI [of _ i]) simp
    next
      assume "\<exists>i. k \<le> i \<and> i < k + int (Suc m) \<and> x = nbr d sd coord i"
      then obtain i where i: "k \<le> i" "i < k + int (Suc m)" "x = nbr d sd coord i"
        by blast
      with False have "i \<noteq> k"
        by auto
      with i show "\<exists>i. k + 1 \<le> i \<and> i < k + 1 + int m \<and> x = nbr d sd coord i"
        by (intro exI [of _ i]) simp
    qed
    have same: "map_of ?D1 x = map_of D x"
      using False by (simp only: m1 fun_upd_other not_False_eq_True)
    show ?thesis
      by (simp only: mD' same E)
  qed
  then show ?case
    using w D' by auto
qed

lemma stored_map_entry:
  "stored (AList.map_entry k (set_run d v) D) d' x =
     (if d' = d \<and> x = k \<and> k \<in> dom (map_of D) then Some v else stored D d' x)"
  by (auto simp: stored_def map_of_map_entry get_set_run split: option.splits)

lemma dom_map_entry_eq: "dom (map_of (AList.map_entry k f D)) = dom (map_of D)"
  by (auto simp: map_of_map_entry split: option.splits if_splits)

lemma walk_stored:
  assumes "stored D d coord = Some g" and "0 \<le> k"
    and "\<forall>i. k \<le> i \<and> i < k + int m \<longrightarrow> nbr d sd coord i \<in> dom (map_of D)"
    and "nbr d sd coord (k + int m) \<notin> dom (map_of D)"
  shows "\<exists>D'. walk D coord d sd k = Inr D' \<and> dom (map_of D') = dom (map_of D) \<and>
           (\<forall>d' x. stored D' d' x =
              (if d' = d \<and> (\<exists>i. k \<le> i \<and> i < k + int m \<and> x = nbr d sd coord i)
               then Some g else stored D d' x))"
proof -
  from assms(1) obtain rc where rc: "map_of D coord = Some rc" "get_run d rc = g"
    by (auto simp: stored_def)
  from walk_run [OF rc(1) assms(2,3,4)]
  obtain D' where w: "walk D coord d sd k = Inr D'"
    and m: "map_of D' =
             (\<lambda>x. if \<exists>i. k \<le> i \<and> i < k + int m \<and> x = nbr d sd coord i
                  then map_option (set_run d (get_run d rc)) (map_of D x)
                  else map_of D x)"
    by blast
  have dom: "dom (map_of D') = dom (map_of D)"
    by (auto simp: m split: if_splits)
  have st: "stored D' d' x =
              (if d' = d \<and> (\<exists>i. k \<le> i \<and> i < k + int m \<and> x = nbr d sd coord i)
               then Some g else stored D d' x)" for d' x
  proof (cases "\<exists>i. k \<le> i \<and> i < k + int m \<and> x = nbr d sd coord i")
    case True
    then have "x \<in> dom (map_of D)"
      using assms(3) by blast
    then obtain r where r: "map_of D x = Some r"
      by auto
    have "map_of D' x = Some (set_run d g r)"
      using True r rc(2) by (simp only: m if_True option.map)
    then show ?thesis
      using True r by (simp add: stored_def get_set_run)
  next
    case False
    then have "map_of D' x = map_of D x"
      by (simp only: m if_False)
    then have "stored D' d' x = stored D d' x"
      by (simp add: stored_def)
    then show ?thesis
      by (simp only: False simp_thms if_False)
  qed
  show ?thesis
    using w dom st by blast
qed

lemma absorb_stored:
  assumes "stored E d coord = Some g"
    and "\<forall>i. 0 \<le> i \<and> i < int m \<longrightarrow> nbr d sd coord i \<in> dom (map_of E)"
    and "nbr d sd coord (int m) \<notin> dom (map_of E)"
    and "0 < m \<Longrightarrow> stored E d (nbr d sd coord 0) = Some v"
  shows "\<exists>E'. absorb E coord d sd = Inr E' \<and> dom (map_of E') = dom (map_of E) \<and>
           (\<forall>d' x. stored E' d' x =
              (if d' = d \<and> (x = coord \<or> (\<exists>i. 0 \<le> i \<and> i < int m \<and> x = nbr d sd coord i))
               then Some (g + (if m = 0 then 0 else v)) else stored E d' x))"
proof (cases "m = 0")
  case True
  then have "map_of E (nbr d sd coord 0) = None"
    using assms(3) by (simp add: domIff)
  then have "absorb E coord d sd = Inr E"
    by (simp add: absorb_def)
  then show ?thesis
    using True assms(1) by auto
next
  case False
  then have v: "stored E d (nbr d sd coord 0) = Some v"
    using assms(4) by simp
  then obtain rn where rn: "map_of E (nbr d sd coord 0) = Some rn" "get_run d rn = v"
    by (auto simp: stored_def)
  from assms(1) obtain rc where rc: "map_of E coord = Some rc" "get_run d rc = g"
    by (auto simp: stored_def)
  let ?E0 = "AList.map_entry coord (set_run d (g + v)) E"
  have ab: "absorb E coord d sd = walk ?E0 coord d sd 0"
    using rn rc by (simp add: absorb_def)
  have cdom: "coord \<in> dom (map_of E)"
    using rc by auto
  have dom0: "dom (map_of ?E0) = dom (map_of E)"
    by (rule dom_map_entry_eq)
  have st0: "stored ?E0 d' x = (if d' = d \<and> x = coord then Some (g + v) else stored E d' x)"
    for d' x
    using cdom by (simp add: stored_map_entry)
  have g0: "stored ?E0 d coord = Some (g + v)"
    by (simp add: st0)
  have p3: "\<forall>i. 0 \<le> i \<and> i < 0 + int m \<longrightarrow> nbr d sd coord i \<in> dom (map_of ?E0)"
    using assms(2) by (simp add: dom0)
  have p4: "nbr d sd coord (0 + int m) \<notin> dom (map_of ?E0)"
    using assms(3) by (simp add: dom0)
  from walk_stored [OF g0 _ p3 p4]
  obtain E' where w: "walk ?E0 coord d sd 0 = Inr E'"
    and dom': "dom (map_of E') = dom (map_of ?E0)"
    and st': "\<forall>d' x. stored E' d' x =
              (if d' = d \<and> (\<exists>i. 0 \<le> i \<and> i < 0 + int m \<and> x = nbr d sd coord i)
               then Some (g + v) else stored ?E0 d' x)"
    by auto
  have "stored E' d' x =
          (if d' = d \<and> (x = coord \<or> (\<exists>i. 0 \<le> i \<and> i < int m \<and> x = nbr d sd coord i))
           then Some (g + (if m = 0 then 0 else v)) else stored E d' x)" for d' x
    using False st' [rule_format, of d' x] by (auto simp: st0)
  then show ?thesis
    using ab w dom' dom0 by auto
qed

lemma segment_cases:
  "(\<exists>i. - int a \<le> i \<and> i \<le> int b \<and> x = step d c i) \<longleftrightarrow>
   x = c \<or> (\<exists>i. 0 \<le> i \<and> i < int a \<and> x = nbr d First c i) \<or>
   (\<exists>i. 0 \<le> i \<and> i < int b \<and> x = nbr d Second c i)"
proof
  assume "\<exists>i. - int a \<le> i \<and> i \<le> int b \<and> x = step d c i"
  then obtain i where i: "- int a \<le> i" "i \<le> int b" "x = step d c i"
    by blast
  consider "i = 0" | "i < 0" | "0 < i"
    by linarith
  then show "x = c \<or> (\<exists>i. 0 \<le> i \<and> i < int a \<and> x = nbr d First c i) \<or>
      (\<exists>i. 0 \<le> i \<and> i < int b \<and> x = nbr d Second c i)"
  proof cases
    case 1
    then show ?thesis using i by (simp add: step_0)
  next
    case 2
    have "0 \<le> - 1 - i \<and> - 1 - i < int a \<and> x = nbr d First c (- 1 - i)"
      using 2 i by (simp add: nbr_First)
    then show ?thesis by blast
  next
    case 3
    have "0 \<le> i - 1 \<and> i - 1 < int b \<and> x = nbr d Second c (i - 1)"
      using 3 i by (simp add: nbr_Second)
    then show ?thesis by blast
  qed
next
  assume "x = c \<or> (\<exists>i. 0 \<le> i \<and> i < int a \<and> x = nbr d First c i) \<or>
      (\<exists>i. 0 \<le> i \<and> i < int b \<and> x = nbr d Second c i)"
  then consider "x = c" | i where "0 \<le> i" "i < int a" "x = nbr d First c i"
    | i where "0 \<le> i" "i < int b" "x = nbr d Second c i"
    by blast
  then show "\<exists>i. - int a \<le> i \<and> i \<le> int b \<and> x = step d c i"
  proof cases
    case 1
    then show ?thesis by (intro exI [of _ 0]) (simp add: step_0)
  next
    case 2
    then show ?thesis by (intro exI [of _ "- 1 - i"]) (simp add: nbr_First)
  next
    case 3
    then show ?thesis by (intro exI [of _ "1 + i"]) (simp add: nbr_Second)
  qed
qed

text \<open>
  What one block of the source computes: with \<open>a\<close> cells of the dictionary in a row
  on the first side and \<open>b\<close> on the second, whose nearest cells store \<open>a\<close> and \<open>b\<close>,
  the placed cell and these \<open>a + b\<close> cells all end with \<open>1 + a + b\<close> for the
  direction of the block, and nothing else changes.
\<close>

lemma update_dir_stored:
  assumes one: "stored E d coord = Some 1"
    and a1: "\<forall>i. 0 \<le> i \<and> i < int a \<longrightarrow> nbr d First coord i \<in> dom (map_of E)"
    and a2: "nbr d First coord (int a) \<notin> dom (map_of E)"
    and b1: "\<forall>i. 0 \<le> i \<and> i < int b \<longrightarrow> nbr d Second coord i \<in> dom (map_of E)"
    and b2: "nbr d Second coord (int b) \<notin> dom (map_of E)"
    and va: "0 < a \<Longrightarrow> stored E d (nbr d First coord 0) = Some (int a)"
    and vb: "0 < b \<Longrightarrow> stored E d (nbr d Second coord 0) = Some (int b)"
  shows "\<exists>E'. update_dir E coord d = Inr E' \<and> dom (map_of E') = dom (map_of E) \<and>
           (\<forall>d' x. stored E' d' x =
              (if d' = d \<and> (\<exists>i. - int a \<le> i \<and> i \<le> int b \<and> x = step d coord i)
               then Some (1 + int a + int b) else stored E d' x))"
proof -
  let ?r1 = "\<lambda>x. \<exists>i. 0 \<le> i \<and> i < int a \<and> x = nbr d First coord i"
  let ?r2 = "\<lambda>x. \<exists>i. 0 \<le> i \<and> i < int b \<and> x = nbr d Second coord i"
  from absorb_stored [OF one a1 a2 va]
  obtain E1 where e1: "absorb E coord d First = Inr E1"
    and dom1: "dom (map_of E1) = dom (map_of E)"
    and st1: "\<And>d' x. stored E1 d' x =
              (if d' = d \<and> (x = coord \<or> ?r1 x)
               then Some (1 + (if a = 0 then 0 else int a)) else stored E d' x)"
    by blast
  have g1: "stored E1 d coord = Some (1 + int a)"
    by (simp add: st1)
  have s0: "nbr d Second coord 0 \<noteq> coord"
    by (rule nbr_not_coord) simp
  have s1: "\<not> ?r1 (nbr d Second coord 0)"
    by (auto simp: nbr_First nbr_Second step_inj)
  have vb1: "stored E1 d (nbr d Second coord 0) = Some (int b)" if "0 < b"
    using vb [OF that] s0 s1 by (simp only: st1) simp
  have b1': "\<forall>i. 0 \<le> i \<and> i < int b \<longrightarrow> nbr d Second coord i \<in> dom (map_of E1)"
    using b1 by (simp add: dom1)
  have b2': "nbr d Second coord (int b) \<notin> dom (map_of E1)"
    using b2 by (simp add: dom1)
  from absorb_stored [OF g1 b1' b2' vb1]
  obtain E2 where e2: "absorb E1 coord d Second = Inr E2"
    and dom2: "dom (map_of E2) = dom (map_of E1)"
    and st2: "\<And>d' x. stored E2 d' x =
              (if d' = d \<and> (x = coord \<or> ?r2 x)
               then Some (1 + int a + (if b = 0 then 0 else int b)) else stored E1 d' x)"
    by blast
  have g2: "stored E2 d coord = Some (1 + int a + int b)"
    by (simp add: st2)
  have a1': "\<forall>i. 0 \<le> i \<and> i < 0 + int a \<longrightarrow> nbr d First coord i \<in> dom (map_of E2)"
    using a1 by (simp add: dom1 dom2)
  have a2': "nbr d First coord (0 + int a) \<notin> dom (map_of E2)"
    using a2 by (simp add: dom1 dom2)
  from walk_stored [OF g2 _ a1' a2']
  obtain E3 where e3: "walk E2 coord d First 0 = Inr E3"
    and dom3: "dom (map_of E3) = dom (map_of E2)"
    and st3: "\<And>d' x. stored E3 d' x =
              (if d' = d \<and> (\<exists>i. 0 \<le> i \<and> i < 0 + int a \<and> x = nbr d First coord i)
               then Some (1 + int a + int b) else stored E2 d' x)"
    by auto
  have u: "update_dir E coord d = Inr E3"
    by (simp add: update_dir_def e1 e2 e3)
  have "stored E3 d' x =
          (if d' = d \<and> (\<exists>i. - int a \<le> i \<and> i \<le> int b \<and> x = step d coord i)
           then Some (1 + int a + int b) else stored E d' x)" for d' x
  proof -
    have seg: "(\<exists>i. - int a \<le> i \<and> i \<le> int b \<and> x = step d coord i) \<longleftrightarrow>
        x = coord \<or> ?r1 x \<or> ?r2 x"
      by (rule segment_cases)
    have r1: "(\<exists>i. 0 \<le> i \<and> i < 0 + int a \<and> x = nbr d First coord i) \<longleftrightarrow> ?r1 x"
      by simp
    show ?thesis
      unfolding seg st3 r1 st2 st1 by auto
  qed
  then show ?thesis
    using u dom1 dom2 dom3 by auto
qed

lemma extent_exists:
  assumes "finite K"
  shows "\<exists>m::nat. (\<forall>i. 0 \<le> i \<and> i < int m \<longrightarrow> nbr d sd c i \<in> K) \<and> nbr d sd c (int m) \<notin> K"
proof (rule ccontr)
  assume "\<not> ?thesis"
  then have next_in: "nbr d sd c (int m) \<in> K"
    if "\<forall>i. 0 \<le> i \<and> i < int m \<longrightarrow> nbr d sd c i \<in> K" for m
    using that by blast
  have all_in: "nbr d sd c (int m) \<in> K" for m
  proof (induction m rule: less_induct)
    case (less m)
    have "\<forall>i. 0 \<le> i \<and> i < int m \<longrightarrow> nbr d sd c i \<in> K"
    proof (intro allI impI)
      fix i
      assume "0 \<le> i \<and> i < int m"
      then have "nat i < m" and "int (nat i) = i"
        by auto
      with less.IH [of "nat i"] show "nbr d sd c i \<in> K"
        by simp
    qed
    then show ?case
      by (rule next_in)
  qed
  have inj: "inj (\<lambda>m. nbr d sd c (int m))"
    by (auto simp: inj_on_def nbr_inj)
  have "range (\<lambda>m. nbr d sd c (int m)) \<subseteq> K"
    using all_in by auto
  then have "finite (range (\<lambda>m. nbr d sd c (int m)))"
    using assms by (rule finite_subset)
  then have "finite (UNIV :: nat set)"
    using inj by (rule finite_imageD)
  then show False
    by simp
qed

lemma run_on_first_side:
  assumes "coord \<notin> K" and "0 < a"
    and "\<forall>i. 0 \<le> i \<and> i < int a \<longrightarrow> nbr d First coord i \<in> K"
    and "nbr d First coord (int a) \<notin> K"
  shows "maximal_run K d (step d coord (- int a)) a"
proof -
  have "step d (step d coord (- int a)) (int j) \<in> K" if "j < a" for j
  proof -
    have "step d (step d coord (- int a)) (int j) = nbr d First coord (int a - 1 - int j)"
      by (simp add: step_step nbr_First)
    moreover have "0 \<le> int a - 1 - int j \<and> int a - 1 - int j < int a"
      using that by simp
    ultimately show ?thesis
      using assms(3) by simp
  qed
  moreover have "step d (step d coord (- int a)) (- 1) = nbr d First coord (int a)"
    by (simp add: step_step nbr_First algebra_simps)
  moreover have "step d (step d coord (- int a)) (int a) = coord"
    by (simp add: step_step step_0)
  ultimately show ?thesis
    using assms(1,2,4) by (simp add: maximal_run_def)
qed

lemma run_on_second_side:
  assumes "coord \<notin> K" and "0 < b"
    and "\<forall>i. 0 \<le> i \<and> i < int b \<longrightarrow> nbr d Second coord i \<in> K"
    and "nbr d Second coord (int b) \<notin> K"
  shows "maximal_run K d (step d coord 1) b"
proof -
  have "step d (step d coord 1) (int j) \<in> K" if "j < b" for j
    using that assms(3) by (simp add: step_step nbr_Second)
  moreover have "step d (step d coord 1) (- 1) = coord"
    by (simp add: step_step step_0)
  moreover have "step d (step d coord 1) (int b) = nbr d Second coord (int b)"
    by (simp add: step_step nbr_Second)
  ultimately show ?thesis
    using assms(1,2,4) by (simp add: maximal_run_def)
qed

lemma uniform_dir_cong:
  assumes "uniform_dir K E d" and "\<forall>x\<in>K. stored E' d x = stored E d x"
  shows "uniform_dir K E' d"
  using assms unfolding uniform_dir_def maximal_run_def by auto

lemma step_base: "step d c j = step d c' j \<Longrightarrow> c = c'"
  by (cases d; cases c; cases c') auto

text \<open>
  The invariant of one direction after a placement: the new stone joins the \<open>a\<close>
  stones before it and the \<open>b\<close> stones after it into one maximal run of
  \<open>1 + a + b\<close> stones, and every other maximal run is a maximal run of before.
\<close>

lemma uniform_dir_insert:
  assumes old: "uniform_dir K E d" and fresh: "coord \<notin> K"
    and a1: "\<forall>i. 0 \<le> i \<and> i < int a \<longrightarrow> nbr d First coord i \<in> K"
    and a2: "nbr d First coord (int a) \<notin> K"
    and b1: "\<forall>i. 0 \<le> i \<and> i < int b \<longrightarrow> nbr d Second coord i \<in> K"
    and b2: "nbr d Second coord (int b) \<notin> K"
    and st: "\<forall>x. stored E' d x =
              (if \<exists>i. - int a \<le> i \<and> i \<le> int b \<and> x = step d coord i
               then Some (1 + int a + int b) else stored E d x)"
  shows "uniform_dir (insert coord K) E' d"
  unfolding uniform_dir_def
proof (intro allI impI)
  fix c n j
  assume run: "maximal_run (insert coord K) d c n" and j: "j < n"
  let ?K' = "insert coord K"
  let ?seg = "\<lambda>x. \<exists>i. - int a \<le> i \<and> i \<le> int b \<and> x = step d coord i"
  have in_seg: "step d coord i \<in> ?K'" if "- int a \<le> i" "i \<le> int b" for i
  proof -
    have "?seg (step d coord i)"
      using that by blast
    then show ?thesis
      unfolding segment_cases using a1 b1 by auto
  qed
  have below: "step d coord (- int a - 1) \<notin> ?K'"
  proof -
    have "- int a - 1 = - 1 - int a"
      by simp
    then have "step d coord (- int a - 1) = nbr d First coord (int a)"
      by (simp only: nbr_First)
    moreover have "step d coord (- int a - 1) \<noteq> coord"
      using step_inj [of d coord "- int a - 1" 0] by (simp add: step_0)
    ultimately show ?thesis
      using a2 by simp
  qed
  have above: "step d coord (int b + 1) \<notin> ?K'"
  proof -
    have "step d coord (int b + 1) = nbr d Second coord (int b)"
      by (simp add: nbr_Second add.commute)
    moreover have "step d coord (int b + 1) \<noteq> coord"
      using step_inj [of d coord "int b + 1" 0] by (simp add: step_0)
    ultimately show ?thesis
      using b2 by simp
  qed
  have st': "stored E' d x = (if ?seg x then Some (1 + int a + int b) else stored E d x)" for x
    using st by (rule spec)
  from run have cells: "\<And>k. k < n \<Longrightarrow> step d c (int k) \<in> ?K'"
    and before: "step d c (- 1) \<notin> ?K'" and after: "step d c (int n) \<notin> ?K'"
    by (simp_all add: maximal_run_def)
  show "stored E' d (step d c (int j)) = Some (int n)"
  proof (cases "\<exists>k<n. ?seg (step d c (int k))")
    case True
    then obtain k i where k: "k < n" and i: "- int a \<le> i" "i \<le> int b"
      and eq: "step d c (int k) = step d coord i"
      by blast
    define t where "t = i - int k"
    have "step d (step d coord t) (int k) = step d c (int k)"
      by (simp add: step_step t_def eq)
    then have c: "c = step d coord t"
      using step_base by metis
    have cells': "step d coord (t + int m) \<in> ?K'" if "m < n" for m
      using cells [OF that] by (simp add: c step_step)
    have before': "step d coord (t - 1) \<notin> ?K'"
      using before by (simp add: c step_step)
    have after': "step d coord (t + int n) \<notin> ?K'"
      using after by (simp add: c step_step)
    have t_le: "t \<le> - int a"
    proof (rule ccontr)
      assume "\<not> t \<le> - int a"
      then have "- int a \<le> t - 1" and "t - 1 \<le> int b"
        using i k by (simp_all add: t_def)
      then show False
        using in_seg before' by blast
    qed
    have t_ge: "- int a \<le> t"
    proof (rule ccontr)
      assume "\<not> - int a \<le> t"
      then have lt: "t < - int a"
        by simp
      define m where "m = nat (- int a - 1 - t)"
      have "m < n" and "t + int m = - int a - 1"
        using lt i k by (simp_all add: m_def t_def)
      with cells' [of m] below show False
        by simp
    qed
    have n_ge: "int b + 1 \<le> t + int n"
    proof (rule ccontr)
      assume "\<not> int b + 1 \<le> t + int n"
      then have "- int a \<le> t + int n" and "t + int n \<le> int b"
        using i k by (simp_all add: t_def)
      then show False
        using in_seg after' by blast
    qed
    have n_le: "t + int n \<le> int b + 1"
    proof (rule ccontr)
      assume "\<not> t + int n \<le> int b + 1"
      then have gt: "int b + 1 < t + int n"
        by simp
      define m where "m = nat (int b + 1 - t)"
      have "m < n" and "t + int m = int b + 1"
        using gt i k by (simp_all add: m_def t_def)
      with cells' [of m] above show False
        by simp
    qed
    have t: "t = - int a" and n: "int n = 1 + int a + int b"
      using t_le t_ge n_ge n_le by simp_all
    have "step d c (int j) = step d coord (- int a + int j)"
      by (simp add: c t step_step)
    moreover have "- int a \<le> - int a + int j \<and> - int a + int j \<le> int b"
      using j n by simp
    ultimately have "?seg (step d c (int j))"
      by blast
    then have "stored E' d (step d c (int j)) = Some (1 + int a + int b)"
      by (simp only: st' if_True)
    then show ?thesis
      by (simp add: n)
  next
    case False
    then have noseg: "\<not> ?seg (step d c (int k))" if "k < n" for k
      using that by blast
    have "?seg coord"
      by (intro exI [of _ 0]) (simp add: step_0)
    then have "step d c (int k) \<noteq> coord" if "k < n" for k
      using noseg [OF that] by metis
    then have "step d c (int k) \<in> K" if "k < n" for k
      using cells [OF that] that by blast
    then have "maximal_run K d c n"
      using run before after by (simp add: maximal_run_def)
    then have "stored E d (step d c (int j)) = Some (int n)"
      using old j unfolding uniform_dir_def by blast
    moreover have "stored E' d (step d c (int j)) = stored E d (step d c (int j))"
      by (simp only: st' noseg [OF j] if_False)
    ultimately show ?thesis
      by simp
  qed
qed

lemma update_dirs_uniform:
  assumes "finite K" and "coord \<notin> K" and "distinct ds"
    and "dom (map_of E) = insert coord K"
    and "\<forall>d\<in>set ds. stored E d coord = Some 1 \<and> uniform_dir K E d"
    and "\<forall>d. d \<notin> set ds \<longrightarrow> uniform_dir (insert coord K) E d"
  shows "\<exists>E'. update_dirs E coord ds = Inr E' \<and> dom (map_of E') = insert coord K \<and>
           (\<forall>d. uniform_dir (insert coord K) E' d)"
  using assms(3-6)
proof (induction ds arbitrary: E)
  case Nil
  then show ?case by simp
next
  case (Cons d ds)
  note fin = assms(1) and fresh = assms(2)
  have one: "stored E d coord = Some 1" and old: "uniform_dir K E d"
    using Cons.prems(3) by simp_all
  from extent_exists [OF fin, of d First coord]
  obtain a :: nat where a1: "\<forall>i. 0 \<le> i \<and> i < int a \<longrightarrow> nbr d First coord i \<in> K"
    and a2: "nbr d First coord (int a) \<notin> K"
    by blast
  from extent_exists [OF fin, of d Second coord]
  obtain b :: nat where b1: "\<forall>i. 0 \<le> i \<and> i < int b \<longrightarrow> nbr d Second coord i \<in> K"
    and b2: "nbr d Second coord (int b) \<notin> K"
    by blast
  have dom: "dom (map_of E) = insert coord K"
    by (rule Cons.prems(2))
  have a1': "\<forall>i. 0 \<le> i \<and> i < int a \<longrightarrow> nbr d First coord i \<in> dom (map_of E)"
    using a1 by (simp add: dom)
  have a2': "nbr d First coord (int a) \<notin> dom (map_of E)"
    using a2 nbr_not_coord [of "int a" d First coord] by (simp add: dom)
  have b1': "\<forall>i. 0 \<le> i \<and> i < int b \<longrightarrow> nbr d Second coord i \<in> dom (map_of E)"
    using b1 by (simp add: dom)
  have b2': "nbr d Second coord (int b) \<notin> dom (map_of E)"
    using b2 nbr_not_coord [of "int b" d Second coord] by (simp add: dom)
  have va: "stored E d (nbr d First coord 0) = Some (int a)" if "0 < a"
  proof -
    have "maximal_run K d (step d coord (- int a)) a"
      using fresh that a1 a2 by (rule run_on_first_side)
    then have "stored E d (step d (step d coord (- int a)) (int (a - 1))) = Some (int a)"
      using old that unfolding uniform_dir_def by (meson diff_less zero_less_one)
    moreover have "step d (step d coord (- int a)) (int (a - 1)) = nbr d First coord 0"
      using that by (simp add: step_step nbr_First of_nat_diff)
    ultimately show ?thesis
      by simp
  qed
  have vb: "stored E d (nbr d Second coord 0) = Some (int b)" if "0 < b"
  proof -
    have "maximal_run K d (step d coord 1) b"
      using fresh that b1 b2 by (rule run_on_second_side)
    then have "stored E d (step d (step d coord 1) (int 0)) = Some (int b)"
      using old that unfolding uniform_dir_def by blast
    moreover have "step d (step d coord 1) (int 0) = nbr d Second coord 0"
      by (simp add: step_step nbr_Second)
    ultimately show ?thesis
      by simp
  qed
  from update_dir_stored [OF one a1' a2' b1' b2' va vb]
  obtain E1 where u: "update_dir E coord d = Inr E1"
    and dom1: "dom (map_of E1) = dom (map_of E)"
    and st: "\<And>d' x. stored E1 d' x =
              (if d' = d \<and> (\<exists>i. - int a \<le> i \<and> i \<le> int b \<and> x = step d coord i)
               then Some (1 + int a + int b) else stored E d' x)"
    by blast
  have st_d: "\<forall>x. stored E1 d x =
              (if \<exists>i. - int a \<le> i \<and> i \<le> int b \<and> x = step d coord i
               then Some (1 + int a + int b) else stored E d x)"
    by (simp add: st)
  have new_d: "uniform_dir (insert coord K) E1 d"
    using old fresh a1 a2 b1 b2 st_d by (rule uniform_dir_insert)
  have other: "stored E1 d' x = stored E d' x" if "d' \<noteq> d" for d' x
    using that by (simp add: st)
  have p3: "\<forall>d'\<in>set ds. stored E1 d' coord = Some 1 \<and> uniform_dir K E1 d'"
  proof
    fix d'
    assume d': "d' \<in> set ds"
    then have ne: "d' \<noteq> d"
      using Cons.prems(1) by auto
    have "stored E d' coord = Some 1" and "uniform_dir K E d'"
      using Cons.prems(3) d' by simp_all
    then show "stored E1 d' coord = Some 1 \<and> uniform_dir K E1 d'"
      using other [OF ne] uniform_dir_cong [of K E d' E1] by simp
  qed
  have p4: "\<forall>d'. d' \<notin> set ds \<longrightarrow> uniform_dir (insert coord K) E1 d'"
  proof (intro allI impI)
    fix d'
    assume d': "d' \<notin> set ds"
    show "uniform_dir (insert coord K) E1 d'"
    proof (cases "d' = d")
      case True
      then show ?thesis using new_d by simp
    next
      case False
      then have "uniform_dir (insert coord K) E d'"
        using Cons.prems(4) d' by simp
      then show ?thesis
        using other [OF False] uniform_dir_cong [of "insert coord K" E d' E1] by simp
    qed
  qed
  have p1: "distinct ds"
    using Cons.prems(1) by simp
  have p2: "dom (map_of E1) = insert coord K"
    by (simp add: dom1 dom)
  from Cons.IH [OF p1 p2 p3 p4] show ?case
    by (simp add: u)
qed

lemma run_uniform_empty: "run_uniform []"
  by (auto simp: run_uniform_def uniform_dir_def maximal_run_def dict_keys_def)

text \<open>
  The tracker update of one placement on a cell that is not yet in the dictionary
  raises no exception, adds the cell and keeps the invariant.
\<close>

lemma track_uniform:
  assumes "run_uniform D" and "coord \<notin> dict_keys D"
  shows "\<exists>D'. track D coord = Inr D' \<and> dict_keys D' = insert coord (dict_keys D) \<and>
           run_uniform D'"
proof -
  let ?K = "dict_keys D"
  let ?ds = "[UpDown, LeftRight, Backslash, Forwardslash]"
  define D0 where "D0 = D @ [(coord, fresh_runs)]"
  have none: "map_of D coord = None"
    using assms(2) by (simp add: dict_keys_dom domIff)
  have m0: "map_of D0 x = (if x = coord then Some fresh_runs else map_of D x)" for x
    using none by (auto simp: D0_def map_add_def split: option.splits)
  have sd: "setdefault D coord fresh_runs = D0"
    by (simp add: setdefault_def none D0_def)
  have items: "map fst (run_items fresh_runs) = ?ds"
    by (simp add: run_items_def)
  have tr: "track D coord = update_dirs D0 coord ?ds"
    by (simp add: track_def sd m0 items del: update_dirs.simps)
  have fin: "finite ?K"
    by (simp add: dict_keys_def)
  have dom0: "dom (map_of D0) = insert coord ?K"
    by (auto simp: m0 dict_keys_dom split: if_splits)
  have st0: "stored D0 d x = (if x = coord then Some 1 else stored D d x)" for d x
    by (cases d) (simp_all add: stored_def m0 fresh_runs_def)
  have p: "\<forall>d\<in>set ?ds. stored D0 d coord = Some 1 \<and> uniform_dir ?K D0 d"
  proof
    fix d
    have "uniform_dir ?K D d"
      using assms(1) by (simp add: run_uniform_def)
    moreover have "\<forall>x\<in>?K. stored D0 d x = stored D d x"
      using assms(2) by (auto simp: st0)
    ultimately have "uniform_dir ?K D0 d"
      by (rule uniform_dir_cong)
    then show "stored D0 d coord = Some 1 \<and> uniform_dir ?K D0 d"
      by (simp add: st0)
  qed
  have q: "\<forall>d. d \<notin> set ?ds \<longrightarrow> uniform_dir (insert coord ?K) D0 d"
  proof (intro allI impI)
    fix d
    assume "d \<notin> set ?ds"
    then show "uniform_dir (insert coord ?K) D0 d"
      by (cases d) simp_all
  qed
  have dist: "distinct ?ds"
    by simp
  from update_dirs_uniform [OF fin assms(2) dist dom0 p q]
  obtain D' where "update_dirs D0 coord ?ds = Inr D'"
    and "dom (map_of D') = insert coord ?K"
    and "\<forall>d. uniform_dir (insert coord ?K) D' d"
    by blast
  then show ?thesis
    using tr by (auto simp: run_uniform_def dict_keys_dom)
qed

lemma raise_max_result:
  assumes "map_of cm key = Some m"
  shows "\<exists>cm' m'. raise_max cm key vs = Inr cm' \<and> map_of cm' key = Some m' \<and> m \<le> m' \<and>
           (\<forall>v\<in>set vs. v \<le> m') \<and> (\<forall>k. k \<noteq> key \<longrightarrow> map_of cm' k = map_of cm k)"
  using assms
proof (induction vs arbitrary: cm m)
  case Nil
  then show ?case by simp
next
  case (Cons a vs)
  let ?cm1 = "if a > m then AList.update key a cm else cm"
  have r: "raise_max cm key (a # vs) = raise_max ?cm1 key vs"
    using Cons.prems by simp
  have k1: "map_of ?cm1 key = Some (max a m)"
    using Cons.prems by (simp add: update_conv' max_def)
  have o1: "map_of ?cm1 k = map_of cm k" if "k \<noteq> key" for k
    using that by (simp add: update_conv')
  from Cons.IH [OF k1]
  obtain cm' m' where "raise_max ?cm1 key vs = Inr cm'" "map_of cm' key = Some m'"
    "max a m \<le> m'" "\<forall>v\<in>set vs. v \<le> m'" "\<forall>k. k \<noteq> key \<longrightarrow> map_of cm' k = map_of ?cm1 k"
    by blast
  then show ?case
    using o1 by (simp only: r) auto
qed

section \<open>The invariant along a game\<close>

lemma insertKeyIntoDict_result:
  assumes "lower color = p" and "p = ''b'' \<or> p = ''w''" and "dict_of p s = Some D"
    and "track D coord = Inr D'" and "map_of D' coord = Some r"
    and "colorMax s = Some cm" and "raise_max cm p (map snd (run_items r)) = Inr cm'"
  shows "insertKeyIntoDict s color coord move =
           (None, (if p = ''w'' then s\<lparr>dictStoreWhiteMove := Some D'\<rparr>
                   else s\<lparr>dictStoreBlackMove := Some D'\<rparr>)\<lparr>colorMax := Some cm'\<rparr>)"
  using assms unfolding insertKeyIntoDict_def dict_of_def Let_def
  by (auto split: if_splits)

lemma get_run_in_items: "get_run d r \<in> set (map snd (run_items r))"
  by (cases d) (simp_all add: run_items_def)

lemma placement:
  assumes "tracked ms s" and "lower color = p" and "p = ''b'' \<or> p = ''w''"
    and "coord \<notin> stones p ms"
  shows "\<exists>D' cm' m'.
           fst (insertKeyIntoDict s color coord move) = None \<and>
           dict_of p (snd (insertKeyIntoDict s color coord move)) = Some D' \<and>
           dict_keys D' = insert coord (stones p ms) \<and> run_uniform D' \<and>
           (p = ''w'' \<longrightarrow> dictStoreBlackMove (snd (insertKeyIntoDict s color coord move)) =
              dictStoreBlackMove s) \<and>
           (p = ''b'' \<longrightarrow> dictStoreWhiteMove (snd (insertKeyIntoDict s color coord move)) =
              dictStoreWhiteMove s) \<and>
           colorMax (snd (insertKeyIntoDict s color coord move)) = Some cm' \<and>
           map_of cm' p = Some m' \<and>
           (\<forall>d v. stored D' d coord = Some v \<longrightarrow> v \<le> m') \<and>
           (\<exists>x. map_of cm' ''b'' = Some x) \<and> (\<exists>x. map_of cm' ''w'' = Some x)"
proof -
  from assms(1) obtain Db Dw cm mb mw where t:
    "dictStoreBlackMove s = Some Db" "dictStoreWhiteMove s = Some Dw"
    "dict_keys Db = stones ''b'' ms" "dict_keys Dw = stones ''w'' ms"
    "run_uniform Db" "run_uniform Dw"
    "colorMax s = Some cm" "map_of cm ''b'' = Some mb" "map_of cm ''w'' = Some mw"
    unfolding tracked_def by blast
  define D where "D = (if p = ''w'' then Dw else Db)"
  have dp: "dict_of p s = Some D"
    by (simp add: dict_of_def D_def t)
  have keys: "dict_keys D = stones p ms" and uni: "run_uniform D"
    using assms(3) t by (auto simp: D_def)
  from track_uniform [OF uni, of coord] assms(4)
  obtain D' where tr: "track D coord = Inr D'"
    and keys': "dict_keys D' = insert coord (stones p ms)" and uni': "run_uniform D'"
    by (auto simp: keys)
  have "coord \<in> dom (map_of D')"
    using keys' by (simp add: dict_keys_dom [symmetric])
  then obtain r where r: "map_of D' coord = Some r"
    by auto
  obtain m where m: "map_of cm p = Some m"
    using assms(3) t by auto
  from raise_max_result [OF m, of "map snd (run_items r)"]
  obtain cm' m' where rm: "raise_max cm p (map snd (run_items r)) = Inr cm'"
    and m': "map_of cm' p = Some m'"
    and ge: "\<forall>v\<in>set (map snd (run_items r)). v \<le> m'"
    and other: "\<forall>k. k \<noteq> p \<longrightarrow> map_of cm' k = map_of cm k"
    by blast
  let ?s' = "(if p = ''w'' then s\<lparr>dictStoreWhiteMove := Some D'\<rparr>
             else s\<lparr>dictStoreBlackMove := Some D'\<rparr>)\<lparr>colorMax := Some cm'\<rparr>"
  have res: "insertKeyIntoDict s color coord move = (None, ?s')"
    using assms(2,3) dp tr r t(7) rm by (rule insertKeyIntoDict_result)
  have vals: "\<forall>d v. stored D' d coord = Some v \<longrightarrow> v \<le> m'"
  proof (intro allI impI)
    fix d v
    assume "stored D' d coord = Some v"
    then have "v = get_run d r"
      by (simp add: stored_def r)
    then have "v \<in> set (map snd (run_items r))"
      by (simp only: get_run_in_items)
    with ge show "v \<le> m'"
      by blast
  qed
  have both: "(\<exists>x. map_of cm' ''b'' = Some x) \<and> (\<exists>x. map_of cm' ''w'' = Some x)"
    using assms(3) m' other t(8,9) by (cases "p = ''b''") auto
  show ?thesis
    unfolding res using keys' uni' m' vals both assms(3)
    by (auto simp: dict_of_def)
qed

lemma stones_snoc:
  "stones p (ms @ [(color, coord, move)]) =
     (if lower color = p then insert coord (stones p ms) else stones p ms)"
  by (auto simp: stones_def)

lemma stones_subset: "stones p ms \<subseteq> (fst \<circ> snd) ` set ms"
  by (auto simp: stones_def)

lemma tracked_step:
  assumes "tracked ms s" and "lower color = ''b'' \<or> lower color = ''w''"
    and "coord \<notin> (fst \<circ> snd) ` set ms"
  shows "tracked (ms @ [(color, coord, move)]) (snd (insertKeyIntoDict s color coord move))"
proof -
  let ?p = "lower color"
  have fresh: "coord \<notin> stones ?p ms"
    using assms(3) stones_subset by blast
  from assms(1) obtain Db Dw where t:
    "dictStoreBlackMove s = Some Db" "dictStoreWhiteMove s = Some Dw"
    "dict_keys Db = stones ''b'' ms" "dict_keys Dw = stones ''w'' ms"
    "run_uniform Db" "run_uniform Dw"
    unfolding tracked_def by blast
  from placement [OF assms(1) refl assms(2) fresh, of move]
  obtain D' cm' where p:
    "dict_of ?p (snd (insertKeyIntoDict s color coord move)) = Some D'"
    "dict_keys D' = insert coord (stones ?p ms)" "run_uniform D'"
    "?p = ''w'' \<longrightarrow> dictStoreBlackMove (snd (insertKeyIntoDict s color coord move)) =
              dictStoreBlackMove s"
    "?p = ''b'' \<longrightarrow> dictStoreWhiteMove (snd (insertKeyIntoDict s color coord move)) =
              dictStoreWhiteMove s"
    "colorMax (snd (insertKeyIntoDict s color coord move)) = Some cm'"
    "\<exists>x. map_of cm' ''b'' = Some x" "\<exists>x. map_of cm' ''w'' = Some x"
    by blast
  show ?thesis
  proof (cases "?p = ''w''")
    case True
    then show ?thesis
      using p t unfolding tracked_def by (auto simp: dict_of_def stones_snoc)
  next
    case False
    then have "?p = ''b''"
      using assms(2) by simp
    then show ?thesis
      using p t unfolding tracked_def by (auto simp: dict_of_def stones_snoc)
  qed
qed

lemma tracked_insert_all:
  assumes "tracked done s" and "distinct (map (fst \<circ> snd) (done @ ms))"
    and "\<forall>x\<in>set ms. lower (fst x) = ''b'' \<or> lower (fst x) = ''w''"
  shows "tracked (done @ ms) (insert_all s ms)"
  using assms
proof (induction ms arbitrary: s "done")
  case Nil
  then show ?case by simp
next
  case (Cons x ms)
  obtain color coord move where x: "x = (color, coord, move)"
    by (cases x) auto
  have c: "lower color = ''b'' \<or> lower color = ''w''"
    using Cons.prems(3) x by simp
  have f: "coord \<notin> (fst \<circ> snd) ` set done"
    using Cons.prems(2) x by auto
  have 1: "tracked (done @ [x]) (snd (insertKeyIntoDict s color coord move))"
    unfolding x using Cons.prems(1) c f by (rule tracked_step)
  have 2: "distinct (map (fst \<circ> snd) ((done @ [x]) @ ms))"
    using Cons.prems(2) by (simp add: comp_def)
  have 3: "\<forall>x\<in>set ms. lower (fst x) = ''b'' \<or> lower (fst x) = ''w''"
    using Cons.prems(3) by simp
  from Cons.IH [OF 1 2 3] show ?case
    by (simp add: x)
qed

lemma tracked_cleared:
  assumes "clear_board_cmd s0 args = Inr (rep, s)"
  shows "tracked [] s"
  using assms unfolding clear_board_cmd_def tracked_def
  by (auto split: sum.splits simp: run_uniform_empty stones_def dict_keys_def)

lemma tracked_game:
  assumes "clear_board_cmd s0 args = Inr (rep, s)"
    and "distinct (map (fst \<circ> snd) ms)"
    and "\<forall>x\<in>set ms. lower (fst x) = ''b'' \<or> lower (fst x) = ''w''"
  shows "tracked ms (insert_all s ms)"
  using tracked_insert_all [OF tracked_cleared [OF assms(1)], of ms] assms(2,3) by simp

lemma tracked_dict:
  assumes "tracked ms s" and "p = ''b'' \<or> p = ''w''"
  shows "\<exists>D. dict_of p s = Some D \<and> dict_keys D = stones p ms \<and> run_uniform D"
  using assms unfolding tracked_def dict_of_def by auto

text \<open>
  One game on one board: take the connection that \<open>clear_board_cmd\<close> leaves and a
  sequence \<open>ms\<close> of placements recorded by \<open>insertKeyIntoDict\<close>, each with the
  colour \<open>b\<close> or \<open>w\<close> (in either case) and no cell recorded twice. Then for each
  player \<open>p\<close> and each direction \<open>d\<close>, every cell of a maximal contiguous run of
  \<open>n\<close> stones of \<open>p\<close> along \<open>d\<close> stores, in the dictionary of \<open>p\<close>, the length
  \<open>n\<close> for \<open>d\<close>.
\<close>

lemma run_uniformity:
  assumes "clear_board_cmd s0 args = Inr (rep, s)"
    and "distinct (map (fst \<circ> snd) ms)"
    and "\<forall>x\<in>set ms. lower (fst x) = ''b'' \<or> lower (fst x) = ''w''"
    and "p = ''b'' \<or> p = ''w''"
    and "maximal_run (stones p ms) d c n" and "j < n"
  shows "\<exists>D. dict_of p (insert_all s ms) = Some D \<and>
           stored D d (step d c (int j)) = Some (int n)"
proof -
  have "tracked ms (insert_all s ms)"
    using assms(1,2,3) by (rule tracked_game)
  then obtain D where D: "dict_of p (insert_all s ms) = Some D"
    "dict_keys D = stones p ms" "run_uniform D"
    using tracked_dict assms(4) by blast
  then have "uniform_dir (stones p ms) D d"
    by (simp add: run_uniform_def)
  then have "stored D d (step d c (int j)) = Some (int n)"
    using assms(5,6) unfolding uniform_dir_def by blast
  with D(1) show ?thesis
    by simp
qed

lemma run_uniformity_example:
  "clear_board_cmd (init (empty_board 5)) [] = Inr (Respond [], new_game 5) \<and>
   distinct (map (fst \<circ> snd)
     ([(''b'', (1, 1), 7), (''b'', (1, 3), 9), (''B'', (1, 2), 8)] :: (string \<times> cell \<times> int) list)) \<and>
   maximal_run (stones ''b'' [(''b'', (1, 1), 7), (''b'', (1, 3), 9), (''B'', (1, 2), 8)])
     LeftRight (1, 1) 3 \<and>
   (\<exists>D. dict_of ''b''
          (insert_all (new_game 5) [(''b'', (1, 1), 7), (''b'', (1, 3), 9), (''B'', (1, 2), 8)]) =
          Some D \<and>
        stored D LeftRight (1, 1) = Some 3 \<and> stored D LeftRight (1, 2) = Some 3 \<and>
        stored D LeftRight (1, 3) = Some 3)"
proof -
  let ?ms = "[(''b'', (1, 1), 7), (''b'', (1, 3), 9), (''B'', (1, 2), 8)] :: (string \<times> cell \<times> int) list"
  have h1: "clear_board_cmd (init (empty_board 5)) [] = Inr (Respond [], new_game 5)"
    by (rule clear_board_cmd_new_game) (simp_all add: MAXSIZE_def)
  have h2: "distinct (map (fst \<circ> snd) ?ms)"
    by simp
  have low: "lower ''b'' = ''b''" "lower ''B'' = ''b''"
    by code_simp+
  have h3: "\<forall>x\<in>set ?ms. lower (fst x) = ''b'' \<or> lower (fst x) = ''w''"
    by (simp add: low)
  have h4: "''b'' = ''b'' \<or> ''b'' = ''w''"
    by simp
  have st: "stones ''b'' ?ms = {(1, 1), (1, 3), (1, 2)}"
    by (simp add: stones_def low)
  have h5: "maximal_run (stones ''b'' ?ms) LeftRight (1, 1) 3"
    unfolding st maximal_run_def by (auto simp: less_Suc_eq numeral_3_eq_3)
  from run_uniformity [OF h1 h2 h3 h4 h5, of 0] run_uniformity [OF h1 h2 h3 h4 h5, of 1]
    run_uniformity [OF h1 h2 h3 h4 h5, of 2]
  have "\<exists>D. dict_of ''b'' (insert_all (new_game 5) ?ms) = Some D \<and>
        stored D LeftRight (1, 1) = Some 3 \<and> stored D LeftRight (1, 2) = Some 3 \<and>
        stored D LeftRight (1, 3) = Some 3"
    by auto
  with h1 h2 h5 show ?thesis
    by blast
qed

lemma run_through_placed:
  assumes "coord \<notin> K"
    and a1: "\<forall>i. 0 \<le> i \<and> i < int a \<longrightarrow> nbr d First coord i \<in> K"
    and a2: "nbr d First coord (int a) \<notin> K"
    and b1: "\<forall>i. 0 \<le> i \<and> i < int b \<longrightarrow> nbr d Second coord i \<in> K"
    and b2: "nbr d Second coord (int b) \<notin> K"
  shows "maximal_run (insert coord K) d (step d coord (- int a)) (a + b + 1)"
proof -
  have cells: "step d (step d coord (- int a)) (int j) \<in> insert coord K" if "j < a + b + 1" for j
  proof -
    have "\<exists>i. - int a \<le> i \<and> i \<le> int b \<and> step d coord (- int a + int j) = step d coord i"
      using that by (intro exI [of _ "- int a + int j"]) simp
    then show ?thesis
      unfolding segment_cases step_step using a1 b1 by auto
  qed
  have e: "- int a + - 1 = - 1 - int a"
    by simp
  have "step d (step d coord (- int a)) (- 1) = nbr d First coord (int a)"
    by (simp only: nbr_First step_step e)
  moreover have "nbr d First coord (int a) \<noteq> coord"
    by (rule nbr_not_coord) simp
  ultimately have before: "step d (step d coord (- int a)) (- 1) \<notin> insert coord K"
    using a2 by simp
  have "step d (step d coord (- int a)) (int (a + b + 1)) = nbr d Second coord (int b)"
    by (simp add: step_step nbr_Second)
  moreover have "nbr d Second coord (int b) \<noteq> coord"
    by (rule nbr_not_coord) simp
  ultimately have after: "step d (step d coord (- int a)) (int (a + b + 1)) \<notin> insert coord K"
    using b2 by simp
  show ?thesis
    unfolding maximal_run_def using cells before after by simp
qed

text \<open>
  In such a game, let the player \<open>p\<close> place a stone on a cell that holds no stone of
  \<open>p\<close> and has, along the direction \<open>d\<close>, a run of \<open>L1\<close> stones of \<open>p\<close> next
  to it on one side and a run of \<open>L2\<close> stones of \<open>p\<close> next to it on the other side.
  Then this one call of \<open>insertKeyIntoDict\<close> raises nothing, stores \<open>L1 + L2 + 1\<close>
  for \<open>d\<close> at the placed cell, and leaves the recorded maximum of \<open>p\<close> at
  \<open>L1 + L2 + 1\<close> or more.
\<close>

lemma merge_correct:
  assumes "clear_board_cmd s0 args = Inr (rep, s)"
    and "distinct (map (fst \<circ> snd) ms)"
    and "\<forall>x\<in>set ms. lower (fst x) = ''b'' \<or> lower (fst x) = ''w''"
    and "lower color = p" and "p = ''b'' \<or> p = ''w''"
    and "coord \<notin> stones p ms"
    and "\<forall>i. 0 \<le> i \<and> i < int L1 \<longrightarrow> nbr d First coord i \<in> stones p ms"
    and "nbr d First coord (int L1) \<notin> stones p ms"
    and "\<forall>i. 0 \<le> i \<and> i < int L2 \<longrightarrow> nbr d Second coord i \<in> stones p ms"
    and "nbr d Second coord (int L2) \<notin> stones p ms"
  shows "\<exists>D cm v.
           fst (insertKeyIntoDict (insert_all s ms) color coord move) = None \<and>
           dict_of p (snd (insertKeyIntoDict (insert_all s ms) color coord move)) = Some D \<and>
           stored D d coord = Some (int L1 + int L2 + 1) \<and>
           colorMax (snd (insertKeyIntoDict (insert_all s ms) color coord move)) = Some cm \<and>
           map_of cm p = Some v \<and> int L1 + int L2 + 1 \<le> v"
proof -
  let ?K = "stones p ms"
  let ?res = "insertKeyIntoDict (insert_all s ms) color coord move"
  have "tracked ms (insert_all s ms)"
    using assms(1,2,3) by (rule tracked_game)
  from placement [OF this assms(4,5,6), of move]
  obtain D cm v where p: "fst ?res = None" "dict_of p (snd ?res) = Some D"
    "dict_keys D = insert coord ?K" "run_uniform D"
    "colorMax (snd ?res) = Some cm" "map_of cm p = Some v"
    "\<forall>d v'. stored D d coord = Some v' \<longrightarrow> v' \<le> v"
    by blast
  have run: "maximal_run (insert coord ?K) d (step d coord (- int L1)) (L1 + L2 + 1)"
    using assms(6-10) by (rule run_through_placed)
  have "uniform_dir (insert coord ?K) D d"
    using p(3,4) by (simp add: run_uniform_def)
  moreover have "L1 < L1 + L2 + 1"
    by simp
  ultimately have "stored D d (step d (step d coord (- int L1)) (int L1)) = Some (int (L1 + L2 + 1))"
    using run unfolding uniform_dir_def by blast
  then have val: "stored D d coord = Some (int L1 + int L2 + 1)"
    by (simp add: step_step step_0)
  then have "int L1 + int L2 + 1 \<le> v"
    using p(7) by blast
  with p val show ?thesis
    by blast
qed

lemma merge_correct_example:
  "clear_board_cmd (init (empty_board 5)) [] = Inr (Respond [], new_game 5) \<and>
   (1, 3) \<notin> stones ''b'' [(''b'', (1, 1), 7), (''b'', (1, 2), 8), (''b'', (1, 4), 10),
      (''b'', (1, 5), 11)] \<and>
   (\<exists>D cm v.
      fst (insertKeyIntoDict
            (insert_all (new_game 5)
               [(''b'', (1, 1), 7), (''b'', (1, 2), 8), (''b'', (1, 4), 10), (''b'', (1, 5), 11)])
            ''b'' (1, 3) 9) = None \<and>
      dict_of ''b'' (snd (insertKeyIntoDict
            (insert_all (new_game 5)
               [(''b'', (1, 1), 7), (''b'', (1, 2), 8), (''b'', (1, 4), 10), (''b'', (1, 5), 11)])
            ''b'' (1, 3) 9)) = Some D \<and>
      stored D LeftRight (1, 3) = Some 5 \<and>
      colorMax (snd (insertKeyIntoDict
            (insert_all (new_game 5)
               [(''b'', (1, 1), 7), (''b'', (1, 2), 8), (''b'', (1, 4), 10), (''b'', (1, 5), 11)])
            ''b'' (1, 3) 9)) = Some cm \<and>
      map_of cm ''b'' = Some v \<and> 5 \<le> v)"
proof -
  let ?ms = "[(''b'', (1, 1), 7), (''b'', (1, 2), 8), (''b'', (1, 4), 10), (''b'', (1, 5), 11)]
    :: (string \<times> cell \<times> int) list"
  have h1: "clear_board_cmd (init (empty_board 5)) [] = Inr (Respond [], new_game 5)"
    by (rule clear_board_cmd_new_game) (simp_all add: MAXSIZE_def)
  have h2: "distinct (map (fst \<circ> snd) ?ms)"
    by simp
  have low: "lower ''b'' = ''b''"
    by code_simp
  have h3: "\<forall>x\<in>set ?ms. lower (fst x) = ''b'' \<or> lower (fst x) = ''w''"
    by (simp add: low)
  have h5: "''b'' = ''b'' \<or> ''b'' = ''w''"
    by simp
  have st: "stones ''b'' ?ms = {(1, 1), (1, 2), (1, 4), (1, 5)}"
    by (simp add: stones_def low)
  have two: "i = 0 \<or> i = 1" if "0 \<le> i \<and> i < int 2" for i :: int
    using that by auto
  have h6: "(1, 3) \<notin> stones ''b'' ?ms"
    by (simp add: st)
  have h7: "\<forall>i. 0 \<le> i \<and> i < int 2 \<longrightarrow> nbr LeftRight First (1, 3) i \<in> stones ''b'' ?ms"
    unfolding st using two by auto
  have h8: "nbr LeftRight First (1, 3) (int 2) \<notin> stones ''b'' ?ms"
    by (simp add: st)
  have h9: "\<forall>i. 0 \<le> i \<and> i < int 2 \<longrightarrow> nbr LeftRight Second (1, 3) i \<in> stones ''b'' ?ms"
    unfolding st using two by auto
  have h10: "nbr LeftRight Second (1, 3) (int 2) \<notin> stones ''b'' ?ms"
    by (simp add: st)
  from merge_correct [OF h1 h2 h3 low h5 h6 h7 h8 h9 h10, of 9] h1 h6 show ?thesis
    by simp
qed

section \<open>The tracker update raises nothing\<close>

lemma walk_total:
  assumes "map_of D coord = Some rc"
  shows "\<exists>D'. walk D coord d sd 0 = Inr D' \<and> dom (map_of D') = dom (map_of D)"
proof -
  have "finite (dom (map_of D))"
    by (rule finite_dom_map_of)
  from extent_exists [OF this, of d sd coord]
  obtain m :: nat where m: "\<forall>i. 0 \<le> i \<and> i < int m \<longrightarrow> nbr d sd coord i \<in> dom (map_of D)"
    "nbr d sd coord (int m) \<notin> dom (map_of D)"
    by blast
  have g: "stored D d coord = Some (get_run d rc)"
    by (simp add: stored_def assms)
  have p3: "\<forall>i. 0 \<le> i \<and> i < 0 + int m \<longrightarrow> nbr d sd coord i \<in> dom (map_of D)"
    using m(1) by simp
  have p4: "nbr d sd coord (0 + int m) \<notin> dom (map_of D)"
    using m(2) by simp
  from walk_stored [OF g _ p3 p4] show ?thesis
    by auto
qed

lemma absorb_total:
  assumes "map_of D coord = Some rc"
  shows "\<exists>D'. absorb D coord d sd = Inr D' \<and> dom (map_of D') = dom (map_of D)"
proof (cases "map_of D (nbr d sd coord 0)")
  case None
  then show ?thesis
    by (simp add: absorb_def)
next
  case (Some rn)
  let ?D0 = "AList.map_entry coord (set_run d (get_run d rc + get_run d rn)) D"
  have "map_of ?D0 coord = Some (set_run d (get_run d rc + get_run d rn) rc)"
    by (simp add: map_of_map_entry assms)
  from walk_total [OF this, of d sd]
  obtain D' where "walk ?D0 coord d sd 0 = Inr D'" "dom (map_of D') = dom (map_of ?D0)"
    by blast
  then show ?thesis
    using Some assms by (simp add: absorb_def dom_map_entry_eq)
qed

lemma update_dir_total:
  assumes "coord \<in> dom (map_of D)"
  shows "\<exists>D'. update_dir D coord d = Inr D' \<and> dom (map_of D') = dom (map_of D)"
proof -
  from assms obtain rc where "map_of D coord = Some rc"
    by auto
  from absorb_total [OF this, of d First]
  obtain D1 where 1: "absorb D coord d First = Inr D1" "dom (map_of D1) = dom (map_of D)"
    by blast
  then obtain rc1 where "map_of D1 coord = Some rc1"
    using assms by auto
  from absorb_total [OF this, of d Second]
  obtain D2 where 2: "absorb D1 coord d Second = Inr D2" "dom (map_of D2) = dom (map_of D1)"
    by blast
  then obtain rc2 where "map_of D2 coord = Some rc2"
    using assms 1 by auto
  from walk_total [OF this, of d First]
  obtain D3 where 3: "walk D2 coord d First 0 = Inr D3" "dom (map_of D3) = dom (map_of D2)"
    by blast
  show ?thesis
    using 1 2 3 by (simp add: update_dir_def)
qed

lemma update_dirs_total:
  assumes "coord \<in> dom (map_of D)"
  shows "\<exists>D'. update_dirs D coord ds = Inr D' \<and> dom (map_of D') = dom (map_of D)"
  using assms
proof (induction ds arbitrary: D)
  case Nil
  then show ?case by simp
next
  case (Cons d ds)
  from update_dir_total [OF Cons.prems, of d]
  obtain D1 where 1: "update_dir D coord d = Inr D1" "dom (map_of D1) = dom (map_of D)"
    by blast
  then have "coord \<in> dom (map_of D1)"
    using Cons.prems by simp
  from Cons.IH [OF this] 1 show ?case
    by auto
qed

text \<open>
  Lines 351 to 466 of \<open>insertKeyIntoDict\<close> raise no exception, whatever the dictionary
  and the cell are, and leave the cell in the dictionary.
\<close>

lemma track_total:
  "\<exists>D' r. track D coord = Inr D' \<and> map_of D' coord = Some r"
proof -
  define D0 where "D0 = setdefault D coord fresh_runs"
  have "coord \<in> dom (map_of D0)"
    by (auto simp: D0_def setdefault_def split: option.splits)
  then obtain r0 where r0: "map_of D0 coord = Some r0"
    by auto
  from update_dirs_total [OF \<open>coord \<in> dom (map_of D0)\<close>, of "map fst (run_items r0)"]
  obtain D' where "update_dirs D0 coord (map fst (run_items r0)) = Inr D'"
    "dom (map_of D') = dom (map_of D0)"
    by blast
  moreover have "track D coord = update_dirs D0 coord (map fst (run_items r0))"
    using r0 by (simp add: track_def D0_def [symmetric] del: update_dirs.simps)
  ultimately show ?thesis
    using \<open>coord \<in> dom (map_of D0)\<close> by auto
qed

lemma insertKeyIntoDict_total:
  assumes "lower color = p" and "p = ''b'' \<or> p = ''w''" and "dict_of p s = Some D"
    and "colorMax s = Some cm" and "map_of cm p = Some m"
  shows "\<exists>D' cm'. insertKeyIntoDict s color coord move =
           (None, (if p = ''w'' then s\<lparr>dictStoreWhiteMove := Some D'\<rparr>
                   else s\<lparr>dictStoreBlackMove := Some D'\<rparr>)\<lparr>colorMax := Some cm'\<rparr>)"
proof -
  from track_total [of D coord]
  obtain D' r where t: "track D coord = Inr D'" "map_of D' coord = Some r"
    by blast
  from raise_max_result [OF assms(5), of "map snd (run_items r)"]
  obtain cm' where "raise_max cm p (map snd (run_items r)) = Inr cm'"
    by blast
  with insertKeyIntoDict_result [OF assms(1,2,3) t assms(4)] show ?thesis
    by blast
qed

section \<open>The threshold of the win\<close>

lemma point_div_mod:
  assumes "1 \<le> c" and "c \<le> n"
  shows "coord_to_point r c n div (n + 1) = r \<and> coord_to_point r c n mod (n + 1) = c"
  using assms by (simp add: coord_to_point_def)

lemma format_moves_on_board:
  assumes "n < MAXSIZE"
    and "\<forall>p\<in>set ps. \<exists>r c. 1 \<le> r \<and> r \<le> n \<and> 1 \<le> c \<and> c \<le> n \<and> p = coord_to_point r c n"
  shows "\<exists>ms. format_moves ps n = Inr ms \<and> length ms = length ps"
  using assms(2)
proof (induction ps)
  case Nil
  then show ?case by simp
next
  case (Cons p ps)
  then obtain r c where rc: "1 \<le> r" "r \<le> n" "1 \<le> c" "c \<le> n" "p = coord_to_point r c n"
    by auto
  have pc: "point_to_coord (Some p) n = Inr (Some (r, c))"
    using rc point_div_mod [of c n r] by (simp add: point_to_coord_def Let_def)
  have "0 \<le> c - 1 \<and> c - 1 < int (length column_letters)"
    using rc assms(1) by (simp add: column_letters_def MAXSIZE_def)
  then have "\<exists>l. py_index column_letters (c - 1) = Inr l"
    by (simp add: py_index_def)
  then obtain l where "py_index column_letters (c - 1) = Inr l"
    by blast
  then have fp: "format_point (Some (r, c)) = Inr (l # str r)"
    using rc assms(1) by (simp add: format_point_def)
  from Cons obtain ms where "format_moves ps n = Inr ms" "length ms = length ps"
    by auto
  then show ?case
    by (simp add: pc fp)
qed

lemma empty_points_on_board:
  "\<forall>p\<in>set (get_empty_points b).
     \<exists>r c. 1 \<le> r \<and> r \<le> bd_size b \<and> 1 \<le> c \<and> c \<le> bd_size b \<and>
       p = coord_to_point r c (bd_size b)"
  by (fastforce simp: get_empty_points_def)

lemma play_accepted:
  assumes "one_side_won s = Inr False"
    and "colorMax s = Some cm" and "map_of cm ''w'' = Some w" and "map_of cm ''b'' = Some b"
    and "lower c = ''b'' \<or> lower c = ''w''"
    and "dictStoreWhiteMove s = Some Dw" and "dictStoreBlackMove s = Some Db"
    and "move_to_coord mv (bd_size (board s)) = Inr (Some (row, col))"
    and "bd_array (board s) (coord_to_point row col (bd_size (board s))) = EMPTY"
  shows "fst (play_cmd s [c, mv]) = Respond [] \<and>
         bd_array (board (snd (play_cmd s [c, mv]))) (coord_to_point row col (bd_size (board s))) =
           (if lower c = ''b'' then BLACK else WHITE)"
proof -
  let ?pt = "coord_to_point row col (bd_size (board s))"
  let ?col = "if lower c = ''b'' then BLACK else WHITE"
  let ?b' = "(board s)\<lparr>bd_array := (bd_array (board s))(?pt := ?col)\<rparr>"
  let ?s1 = "s\<lparr>board := ?b'\<rparr>"
  have ci: "color_to_int (lower c) = Inr ?col"
    using assms(5) by (auto simp: color_to_int_def)
  have np: "lower mv \<noteq> ''pass''"
    using assms(8) by (rule move_to_coord_Some_not_pass)
  have pm: "play_move (board s) (Some ?pt) ?col = (True, ?b')"
    using assms(9) by simp
  have d: "dict_of (lower c) ?s1 = Some (if lower c = ''w'' then Dw else Db)"
    using assms(6,7) by (simp add: dict_of_def)
  obtain m where m: "map_of cm (lower c) = Some m"
    using assms(3,4,5) by auto
  have cmx: "colorMax ?s1 = Some cm"
    using assms(2) by simp
  from insertKeyIntoDict_total [OF refl assms(5) d cmx m, of "(row, col)" ?pt]
  obtain D' cm' where ins: "insertKeyIntoDict ?s1 c (row, col) ?pt =
           (None, (if lower c = ''w'' then ?s1\<lparr>dictStoreWhiteMove := Some D'\<rparr>
                   else ?s1\<lparr>dictStoreBlackMove := Some D'\<rparr>)\<lparr>colorMax := Some cm'\<rparr>)"
    by blast
  have "play_body s [c, mv] =
          (Inr (Respond []), (if lower c = ''w'' then ?s1\<lparr>dictStoreWhiteMove := Some D'\<rparr>
                   else ?s1\<lparr>dictStoreBlackMove := Some D'\<rparr>)\<lparr>colorMax := Some cm'\<rparr>)"
    using ci np assms(1,8) pm ins by (simp add: play_body_def Let_def)
  then show ?thesis
    by (simp add: play_cmd_def)
qed

text \<open>
  Claim C6, as stated, fails in two of the effects it names. After the 25 commands of
  \<open>full_game ''b'' ''w''\<close> the recorded maximum of Black is exactly 5 and the final
  result is \<open>draw\<close>: the win is not reported. And after five black stones in a row,
  with the recorded maximum of Black at exactly 5, the command \<open>play w pass\<close> is
  accepted and changes the player to move: further play is not refused.
\<close>

theorem exact_five_counterexample:
  "colorMax (play_all (new_game 5) (full_game ''b'' ''w'')) = Some [(''b'', 5), (''w'', 4)] \<and>
   gogui_rules_final_result_cmd (play_all (new_game 5) (full_game ''b'' ''w'')) [] =
     Inr (Respond ''draw'', play_all (new_game 5) (full_game ''b'' ''w'')) \<and>
   colorMax (play_all (new_game 5)
      [[''b'', ''a1''], [''b'', ''b1''], [''b'', ''c1''], [''b'', ''d1''], [''b'', ''e1'']]) =
     Some [(''b'', 5), (''w'', 0)] \<and>
   current_player (board (play_all (new_game 5)
      [[''b'', ''a1''], [''b'', ''b1''], [''b'', ''c1''], [''b'', ''d1''], [''b'', ''e1'']])) =
     BLACK \<and>
   fst (play_cmd (play_all (new_game 5)
      [[''b'', ''a1''], [''b'', ''b1''], [''b'', ''c1''], [''b'', ''d1''], [''b'', ''e1'']])
      [''b'', ''pass'']) = Respond [] \<and>
   current_player (board (snd (play_cmd (play_all (new_game 5)
      [[''b'', ''a1''], [''b'', ''b1''], [''b'', ''c1''], [''b'', ''d1''], [''b'', ''e1'']])
      [''b'', ''pass'']))) = WHITE"
proof -
  have 1: "colorMax (play_all (new_game 5) (full_game ''b'' ''w'')) = Some [(''b'', 5), (''w'', 4)]"
    by code_simp
  have 2: "get_empty_points (board (play_all (new_game 5) (full_game ''b'' ''w''))) = []"
    by code_simp
  have 3: "colorMax (play_all (new_game 5)
      [[''b'', ''a1''], [''b'', ''b1''], [''b'', ''c1''], [''b'', ''d1''], [''b'', ''e1'']]) =
     Some [(''b'', 5), (''w'', 0)]"
    by code_simp
  have 4: "current_player (board (play_all (new_game 5)
      [[''b'', ''a1''], [''b'', ''b1''], [''b'', ''c1''], [''b'', ''d1''], [''b'', ''e1'']])) =
     BLACK"
    by code_simp
  have 5: "fst (play_cmd (play_all (new_game 5)
      [[''b'', ''a1''], [''b'', ''b1''], [''b'', ''c1''], [''b'', ''d1''], [''b'', ''e1'']])
      [''b'', ''pass'']) = Respond []"
    by code_simp
  have 6: "current_player (board (snd (play_cmd (play_all (new_game 5)
      [[''b'', ''a1''], [''b'', ''b1''], [''b'', ''c1''], [''b'', ''d1''], [''b'', ''e1'']])
      [''b'', ''pass'']))) = WHITE"
    by code_simp
  show ?thesis
    using 1 final_result_full_board [OF 2] 3 4 5 6 by simp
qed

text \<open>
  Claim C6, amended. Every test of the recorded maxima is \<open>>= 5\<close>.

  When the recorded maximum of White or of Black is 5 or more: the legal-moves command
  answers with the empty list; every play command whose move is not a pass is refused,
  that is, its reply is not the empty reply of an accepted move and the connection is
  unchanged, and the reply is \<open>One side is win game over!\<close> when the colour and the
  coordinate are valid; a pass with a valid colour is still accepted.

  The final-result command reports \<open>draw\<close> on a full board whatever the maxima are;
  with an empty point left it reports \<open>white win\<close> when White has 5 or more, and
  \<open>black win\<close> when Black has 5 or more and White less than 5.

  When both recorded maxima are 4 or less: with an empty point left the final result
  is \<open>unknown\<close>; no play command is answered with \<open>One side is win game over!\<close>, and
  a play of \<open>b\<close> or \<open>w\<close> with a valid coordinate on an empty cell is accepted and
  puts the stone on the board, provided both dictionaries exist; the legal-moves
  command answers with the sorted upper-case texts of the empty points whenever
  \<open>format_point\<close> formats them all, which it does on every board smaller than
  \<open>MAXSIZE\<close>.
\<close>

theorem win_threshold:
  assumes "colorMax s = Some cm" and "map_of cm ''w'' = Some w" and "map_of cm ''b'' = Some b"
  shows "(5 \<le> w \<or> 5 \<le> b \<longrightarrow>
            gogui_rules_legal_moves_cmd s args = Inr (Respond [], s) \<and>
            (\<forall>c mv. lower mv \<noteq> ''pass'' \<longrightarrow>
               fst (play_cmd s [c, mv]) \<noteq> Respond [] \<and> snd (play_cmd s [c, mv]) = s) \<and>
            (\<forall>c mv coord col.
               color_to_int (lower c) = Inr col \<and>
               move_to_coord mv (bd_size (board s)) = Inr (Some coord) \<longrightarrow>
               play_cmd s [c, mv] = (Respond ''One side is win game over!'', s)) \<and>
            (\<forall>c mv col.
               color_to_int (lower c) = Inr col \<and> lower mv = ''pass'' \<longrightarrow>
               fst (play_cmd s [c, mv]) = Respond [])) \<and>
         (get_empty_points (board s) = [] \<longrightarrow>
            gogui_rules_final_result_cmd s args = Inr (Respond ''draw'', s)) \<and>
         (get_empty_points (board s) \<noteq> [] \<and> 5 \<le> w \<longrightarrow>
            gogui_rules_final_result_cmd s args = Inr (Respond ''white win'', s)) \<and>
         (get_empty_points (board s) \<noteq> [] \<and> w < 5 \<and> 5 \<le> b \<longrightarrow>
            gogui_rules_final_result_cmd s args = Inr (Respond ''black win'', s)) \<and>
         (w \<le> 4 \<and> b \<le> 4 \<longrightarrow>
            (get_empty_points (board s) \<noteq> [] \<longrightarrow>
               gogui_rules_final_result_cmd s args = Inr (Respond ''unknown'', s)) \<and>
            (\<forall>c mv. fst (play_cmd s [c, mv]) \<noteq> Respond ''One side is win game over!'') \<and>
            (\<forall>c mv row col Dw Db.
               (lower c = ''b'' \<or> lower c = ''w'') \<and>
               dictStoreWhiteMove s = Some Dw \<and> dictStoreBlackMove s = Some Db \<and>
               move_to_coord mv (bd_size (board s)) = Inr (Some (row, col)) \<and>
               bd_array (board s) (coord_to_point row col (bd_size (board s))) = EMPTY \<longrightarrow>
               fst (play_cmd s [c, mv]) = Respond [] \<and>
               bd_array (board (snd (play_cmd s [c, mv])))
                 (coord_to_point row col (bd_size (board s))) =
                 (if lower c = ''b'' then BLACK else WHITE)) \<and>
            (\<forall>ms. format_moves (get_empty_points (board s)) (bd_size (board s)) = Inr ms \<longrightarrow>
               gogui_rules_legal_moves_cmd s args =
                 Inr (Respond (upper (join '' '' (sort ms))), s)) \<and>
            (bd_size (board s) < MAXSIZE \<longrightarrow>
               (\<exists>ms. format_moves (get_empty_points (board s)) (bd_size (board s)) = Inr ms \<and>
                  length ms = length (get_empty_points (board s)))))"
proof -
  have won: "one_side_won s = Inr (5 \<le> w \<or> 5 \<le> b)"
    using assms by (simp add: one_side_won_def)
  have a: "gogui_rules_legal_moves_cmd s args = Inr (Respond [], s)" if "5 \<le> w \<or> 5 \<le> b"
    using that won by (simp add: gogui_rules_legal_moves_cmd_def)
  have r: "fst (play_cmd s [c, mv]) \<noteq> Respond [] \<and> snd (play_cmd s [c, mv]) = s"
    if "5 \<le> w \<or> 5 \<le> b" and "lower mv \<noteq> ''pass''" for c mv
    using that won unfolding play_cmd_def play_body_def Let_def
    by (auto split: sum.splits option.splits)
  have b: "play_cmd s [c, mv] = (Respond ''One side is win game over!'', s)"
    if "5 \<le> w \<or> 5 \<le> b" and "color_to_int (lower c) = Inr col"
      and "move_to_coord mv (bd_size (board s)) = Inr (Some coord)" for c mv coord col
    using that won move_to_coord_Some_not_pass [OF that(3)]
    by (simp add: play_cmd_def play_body_def Let_def)
  have p: "fst (play_cmd s [c, mv]) = Respond []"
    if "color_to_int (lower c) = Inr col" and "lower mv = ''pass''" for c mv col
    using that by (simp add: play_cmd_def play_body_def Let_def)
  have dr: "gogui_rules_final_result_cmd s args = Inr (Respond ''draw'', s)"
    if "get_empty_points (board s) = []"
    using that by (rule final_result_full_board)
  have c: "gogui_rules_final_result_cmd s args = Inr (Respond ''white win'', s)"
    if "get_empty_points (board s) \<noteq> []" and "5 \<le> w"
    using that assms by (simp add: gogui_rules_final_result_cmd_def)
  have d: "gogui_rules_final_result_cmd s args = Inr (Respond ''black win'', s)"
    if "get_empty_points (board s) \<noteq> []" and "w < 5" and "5 \<le> b"
    using that assms by (simp add: gogui_rules_final_result_cmd_def)
  have e: "gogui_rules_final_result_cmd s args = Inr (Respond ''unknown'', s)"
    if "w \<le> 4" and "b \<le> 4" and "get_empty_points (board s) \<noteq> []"
    using that assms by (simp add: gogui_rules_final_result_cmd_def)
  have nw: "one_side_won s = Inr False" if "w \<le> 4" and "b \<le> 4"
    using that won by simp
  have g: "fst (play_cmd s [c, mv]) \<noteq> Respond ''One side is win game over!''"
    if "w \<le> 4" and "b \<le> 4" for c mv
    using nw [OF that] unfolding play_cmd_def play_body_def Let_def
    by (auto split: sum.splits option.splits prod.splits)
  have h: "fst (play_cmd s [c, mv]) = Respond [] \<and>
           bd_array (board (snd (play_cmd s [c, mv])))
             (coord_to_point row col (bd_size (board s))) =
             (if lower c = ''b'' then BLACK else WHITE)"
    if "w \<le> 4" and "b \<le> 4" and "lower c = ''b'' \<or> lower c = ''w''"
      and "dictStoreWhiteMove s = Some Dw" and "dictStoreBlackMove s = Some Db"
      and "move_to_coord mv (bd_size (board s)) = Inr (Some (row, col))"
      and "bd_array (board s) (coord_to_point row col (bd_size (board s))) = EMPTY"
    for c mv row col Dw Db
    using nw [OF that(1,2)] assms that(3-7) by (rule play_accepted)
  have f: "gogui_rules_legal_moves_cmd s args = Inr (Respond (upper (join '' '' (sort ms))), s)"
    if "w \<le> 4" and "b \<le> 4"
      and "format_moves (get_empty_points (board s)) (bd_size (board s)) = Inr ms" for ms
    using nw [OF that(1,2)] that(3) by (simp add: gogui_rules_legal_moves_cmd_def)
  have f2: "\<exists>ms. format_moves (get_empty_points (board s)) (bd_size (board s)) = Inr ms \<and>
              length ms = length (get_empty_points (board s))"
    if "bd_size (board s) < MAXSIZE"
    using that empty_points_on_board by (rule format_moves_on_board)
  have won_part: "5 \<le> w \<or> 5 \<le> b \<longrightarrow>
            gogui_rules_legal_moves_cmd s args = Inr (Respond [], s) \<and>
            (\<forall>c mv. lower mv \<noteq> ''pass'' \<longrightarrow>
               fst (play_cmd s [c, mv]) \<noteq> Respond [] \<and> snd (play_cmd s [c, mv]) = s) \<and>
            (\<forall>c mv coord col.
               color_to_int (lower c) = Inr col \<and>
               move_to_coord mv (bd_size (board s)) = Inr (Some coord) \<longrightarrow>
               play_cmd s [c, mv] = (Respond ''One side is win game over!'', s)) \<and>
            (\<forall>c mv col.
               color_to_int (lower c) = Inr col \<and> lower mv = ''pass'' \<longrightarrow>
               fst (play_cmd s [c, mv]) = Respond [])"
    using a r b p by blast
  have low_part: "w \<le> 4 \<and> b \<le> 4 \<longrightarrow>
            (get_empty_points (board s) \<noteq> [] \<longrightarrow>
               gogui_rules_final_result_cmd s args = Inr (Respond ''unknown'', s)) \<and>
            (\<forall>c mv. fst (play_cmd s [c, mv]) \<noteq> Respond ''One side is win game over!'') \<and>
            (\<forall>c mv row col Dw Db.
               (lower c = ''b'' \<or> lower c = ''w'') \<and>
               dictStoreWhiteMove s = Some Dw \<and> dictStoreBlackMove s = Some Db \<and>
               move_to_coord mv (bd_size (board s)) = Inr (Some (row, col)) \<and>
               bd_array (board s) (coord_to_point row col (bd_size (board s))) = EMPTY \<longrightarrow>
               fst (play_cmd s [c, mv]) = Respond [] \<and>
               bd_array (board (snd (play_cmd s [c, mv])))
                 (coord_to_point row col (bd_size (board s))) =
                 (if lower c = ''b'' then BLACK else WHITE)) \<and>
            (\<forall>ms. format_moves (get_empty_points (board s)) (bd_size (board s)) = Inr ms \<longrightarrow>
               gogui_rules_legal_moves_cmd s args =
                 Inr (Respond (upper (join '' '' (sort ms))), s)) \<and>
            (bd_size (board s) < MAXSIZE \<longrightarrow>
               (\<exists>ms. format_moves (get_empty_points (board s)) (bd_size (board s)) = Inr ms \<and>
                  length ms = length (get_empty_points (board s))))"
    using e g h f f2 by blast
  show ?thesis
    using won_part dr c d low_part by blast
qed

theorem win_threshold_witness:
  "colorMax (play_all (new_game 5)
      [[''b'', ''a1''], [''b'', ''b1''], [''b'', ''c1''], [''b'', ''d1''], [''b'', ''e1'']]) =
     Some [(''b'', 5), (''w'', 0)] \<and>
   gogui_rules_legal_moves_cmd (play_all (new_game 5)
      [[''b'', ''a1''], [''b'', ''b1''], [''b'', ''c1''], [''b'', ''d1''], [''b'', ''e1'']]) [] =
     Inr (Respond [], play_all (new_game 5)
      [[''b'', ''a1''], [''b'', ''b1''], [''b'', ''c1''], [''b'', ''d1''], [''b'', ''e1'']]) \<and>
   play_cmd (play_all (new_game 5)
      [[''b'', ''a1''], [''b'', ''b1''], [''b'', ''c1''], [''b'', ''d1''], [''b'', ''e1'']])
      [''w'', ''a2''] =
     (Respond ''One side is win game over!'', play_all (new_game 5)
      [[''b'', ''a1''], [''b'', ''b1''], [''b'', ''c1''], [''b'', ''d1''], [''b'', ''e1'']]) \<and>
   gogui_rules_final_result_cmd (play_all (new_game 5)
      [[''b'', ''a1''], [''b'', ''b1''], [''b'', ''c1''], [''b'', ''d1''], [''b'', ''e1'']]) [] =
     Inr (Respond ''black win'', play_all (new_game 5)
      [[''b'', ''a1''], [''b'', ''b1''], [''b'', ''c1''], [''b'', ''d1''], [''b'', ''e1'']]) \<and>
   colorMax (play_all (new_game 5)
      [[''b'', ''a1''], [''b'', ''b1''], [''b'', ''c1''], [''b'', ''d1'']]) =
     Some [(''b'', 4), (''w'', 0)] \<and>
   gogui_rules_final_result_cmd (play_all (new_game 5)
      [[''b'', ''a1''], [''b'', ''b1''], [''b'', ''c1''], [''b'', ''d1'']]) [] =
     Inr (Respond ''unknown'', play_all (new_game 5)
      [[''b'', ''a1''], [''b'', ''b1''], [''b'', ''c1''], [''b'', ''d1'']]) \<and>
   fst (play_cmd (play_all (new_game 5)
      [[''b'', ''a1''], [''b'', ''b1''], [''b'', ''c1''], [''b'', ''d1'']]) [''w'', ''a2'']) =
     Respond [] \<and>
   (\<exists>ms. format_moves (get_empty_points (board (play_all (new_game 5)
      [[''b'', ''a1''], [''b'', ''b1''], [''b'', ''c1''], [''b'', ''d1'']]))) 5 = Inr ms \<and>
      length ms = 21 \<and>
      gogui_rules_legal_moves_cmd (play_all (new_game 5)
        [[''b'', ''a1''], [''b'', ''b1''], [''b'', ''c1''], [''b'', ''d1'']]) [] =
        Inr (Respond (upper (join '' '' (sort ms))), play_all (new_game 5)
          [[''b'', ''a1''], [''b'', ''b1''], [''b'', ''c1''], [''b'', ''d1'']]))"
proof -
  let ?s5 = "play_all (new_game 5)
      [[''b'', ''a1''], [''b'', ''b1''], [''b'', ''c1''], [''b'', ''d1''], [''b'', ''e1'']]"
  let ?s4 = "play_all (new_game 5)
      [[''b'', ''a1''], [''b'', ''b1''], [''b'', ''c1''], [''b'', ''d1'']]"
  have 5: "colorMax ?s5 = Some [(''b'', 5), (''w'', 0)]"
    by code_simp
  have 4: "colorMax ?s4 = Some [(''b'', 4), (''w'', 0)]"
    by code_simp
  have w5: "map_of [(''b'', 5 :: int), (''w'', 0)] ''w'' = Some 0"
    and b5: "map_of [(''b'', 5 :: int), (''w'', 0)] ''b'' = Some 5"
    and w4: "map_of [(''b'', 4 :: int), (''w'', 0)] ''w'' = Some 0"
    and b4: "map_of [(''b'', 4 :: int), (''w'', 0)] ''b'' = Some 4"
    by simp_all
  have e5: "get_empty_points (board ?s5) \<noteq> []"
    by code_simp
  have e4: "get_empty_points (board ?s4) \<noteq> []"
    by code_simp
  have n4: "length (get_empty_points (board ?s4)) = 21"
    by code_simp
  have sz: "bd_size (board ?s4) = 5"
    by code_simp
  have col: "color_to_int (lower ''w'') = Inr WHITE"
    by code_simp
  have low: "lower ''w'' = ''w''"
    by code_simp
  have mv: "move_to_coord ''a2'' (bd_size (board ?s5)) = Inr (Some (2, 1))"
    by code_simp
  have mv4: "move_to_coord ''a2'' (bd_size (board ?s4)) = Inr (Some (2, 1))"
    by code_simp
  have free: "bd_array (board ?s4) (coord_to_point 2 1 (bd_size (board ?s4))) = EMPTY"
    by code_simp
  have dw: "dictStoreWhiteMove ?s4 = Some []"
    by code_simp
  have "dictStoreBlackMove ?s4 \<noteq> None"
    by code_simp
  then obtain Db where db: "dictStoreBlackMove ?s4 = Some Db"
    by auto
  from win_threshold [OF 5 w5 b5, of "[]"] col mv e5
  have A: "gogui_rules_legal_moves_cmd ?s5 [] = Inr (Respond [], ?s5) \<and>
           play_cmd ?s5 [''w'', ''a2''] = (Respond ''One side is win game over!'', ?s5) \<and>
           gogui_rules_final_result_cmd ?s5 [] = Inr (Respond ''black win'', ?s5)"
    by simp
  note T = win_threshold [OF 4 w4 b4, of "[]"]
  have B1: "gogui_rules_final_result_cmd ?s4 [] = Inr (Respond ''unknown'', ?s4)"
    using T e4 by simp
  have le: "(0 :: int) \<le> 4 \<and> (4 :: int) \<le> 4"
    by simp
  note P = T [THEN conjunct2, THEN conjunct2, THEN conjunct2, THEN conjunct2, THEN mp, OF le,
      THEN conjunct2, THEN conjunct2, THEN conjunct1, THEN spec, THEN spec, THEN spec,
      THEN spec, THEN spec, THEN spec, THEN mp]
  have B2: "fst (play_cmd ?s4 [''w'', ''a2'']) = Respond []"
    using P [of "''w''" Nil Db "''a2''" 2 1] low dw db mv4 free by simp
  have B3: "\<exists>ms. format_moves (get_empty_points (board ?s4)) 5 = Inr ms \<and> length ms = 21 \<and>
      gogui_rules_legal_moves_cmd ?s4 [] = Inr (Respond (upper (join '' '' (sort ms))), ?s4)"
    using T sz n4 by (auto simp: MAXSIZE_def)
  show ?thesis
    using 5 4 A B1 B2 B3 by simp
qed

section \<open>The tracker and the board in one game\<close>

lemma board_stones_iff:
  "(r, c) \<in> board_stones b col \<longleftrightarrow>
     1 \<le> r \<and> r \<le> bd_size b \<and> 1 \<le> c \<and> c \<le> bd_size b \<and>
     bd_array b (coord_to_point r c (bd_size b)) = col"
  by (auto simp: board_stones_def)

lemma coord_to_point_inj:
  assumes "1 \<le> c" and "c \<le> n" and "1 \<le> c'" and "c' \<le> n"
    and "coord_to_point r c n = coord_to_point r' c' n"
  shows "r = r' \<and> c = c'"
  using point_div_mod [OF assms(1,2), of r] point_div_mod [OF assms(3,4), of r'] assms(5)
  by metis

lemma board_stones_empty:
  assumes "col \<noteq> EMPTY"
  shows "board_stones (empty_board n) col = {}"
proof -
  have "x \<notin> board_stones (empty_board n) col" for x
  proof (cases x)
    case (Pair r c)
    show ?thesis
    proof
      assume "x \<in> board_stones (empty_board n) col"
      then have rng: "1 \<le> r" "r \<le> n" "1 \<le> c" "c \<le> n"
        and val: "bd_array (empty_board n) (coord_to_point r c n) = col"
        unfolding Pair board_stones_iff by (simp_all add: empty_board_def)
      have "on_board n (coord_to_point r c n)"
        unfolding on_board_def using point_div_mod [OF rng(3,4), of r] rng by simp
      then have "bd_array (empty_board n) (coord_to_point r c n) = EMPTY"
        by (simp add: empty_board_def)
      with val assms show False
        by simp
    qed
  qed
  then show ?thesis
    by blast
qed

lemma board_stones_player:
  "board_stones (b\<lparr>current_player := p\<rparr>) col = board_stones b col"
  by (simp add: board_stones_def)

lemma board_stones_place:
  assumes "1 \<le> r" and "r \<le> bd_size b" and "1 \<le> c" and "c \<le> bd_size b"
    and "bd_array b (coord_to_point r c (bd_size b)) = EMPTY" and "col' \<noteq> EMPTY"
  shows "board_stones (b\<lparr>bd_array := (bd_array b)(coord_to_point r c (bd_size b) := col)\<rparr>) col' =
           (if col' = col then insert (r, c) (board_stones b col') else board_stones b col')"
proof -
  let ?n = "bd_size b"
  let ?b' = "b\<lparr>bd_array := (bd_array b)(coord_to_point r c ?n := col)\<rparr>"
  have "x \<in> board_stones ?b' col' \<longleftrightarrow>
          x \<in> (if col' = col then insert (r, c) (board_stones b col') else board_stones b col')"
    for x
  proof (cases x)
    case (Pair r' c')
    show ?thesis
    proof (cases "1 \<le> r' \<and> r' \<le> ?n \<and> 1 \<le> c' \<and> c' \<le> ?n")
      case False
      then show ?thesis
        unfolding Pair using assms(1-4) by (auto simp: board_stones_iff)
    next
      case True
      show ?thesis
      proof (cases "coord_to_point r' c' ?n = coord_to_point r c ?n")
        case same: True
        then have "r' = r \<and> c' = c"
          using coord_to_point_inj [of c' ?n c r' r] True assms(3,4) by simp
        then show ?thesis
          unfolding Pair using assms by (auto simp: board_stones_iff)
      next
        case other: False
        then have "(r', c') \<noteq> (r, c)"
          by auto
        then show ?thesis
          unfolding Pair using other True by (auto simp: board_stones_iff)
      qed
    qed
  qed
  then show ?thesis
    by blast
qed

lemma insertKeyIntoDict_board:
  "board (snd (insertKeyIntoDict s color coord move)) = board s"
  unfolding insertKeyIntoDict_def Let_def
  by (auto split: option.splits sum.splits)

lemma raise_max_other:
  assumes "raise_max cm key vs = Inr cm'" and "k \<noteq> key"
  shows "map_of cm' k = map_of cm k"
  using assms
proof (induction vs arbitrary: cm)
  case Nil
  then show ?case by simp
next
  case (Cons v vs)
  then obtain m where m: "map_of cm key = Some m"
    by (auto split: option.splits)
  let ?cm1 = "if v > m then AList.update key v cm else cm"
  have "raise_max ?cm1 key vs = Inr cm'"
    using Cons.prems(1) m by simp
  then have "map_of cm' k = map_of ?cm1 k"
    using Cons.prems(2) by (rule Cons.IH)
  then show ?case
    using Cons.prems(2) by (simp add: update_conv')
qed

lemma insertKeyIntoDict_other:
  assumes "lower color \<noteq> ''b''" and "lower color \<noteq> ''w''" and "colorMax s = Some cm"
  shows "dictStoreBlackMove (snd (insertKeyIntoDict s color coord move)) = dictStoreBlackMove s \<and>
         dictStoreWhiteMove (snd (insertKeyIntoDict s color coord move)) = dictStoreWhiteMove s \<and>
         (\<exists>cm'. colorMax (snd (insertKeyIntoDict s color coord move)) = Some cm' \<and>
            map_of cm' ''b'' = map_of cm ''b'' \<and> map_of cm' ''w'' = map_of cm ''w'')"
proof -
  obtain D' r where tr: "track [] coord = Inr D'" "map_of D' coord = Some r"
    using track_total by blast
  show ?thesis
  proof (cases "raise_max cm (lower color) (map snd (run_items r))")
    case (Inl e)
    then show ?thesis
      using assms tr by (simp add: insertKeyIntoDict_def)
  next
    case (Inr cm')
    then have "map_of cm' ''b'' = map_of cm ''b''" and "map_of cm' ''w'' = map_of cm ''w''"
      using assms(1,2) raise_max_other by metis+
    then show ?thesis
      using assms tr Inr by (simp add: insertKeyIntoDict_def)
  qed
qed

lemma color_to_int_cases:
  assumes "color_to_int p = Inr col"
  shows "(p = ''b'' \<and> col = BLACK) \<or> (p = ''w'' \<and> col = WHITE) \<or>
         (p \<noteq> ''b'' \<and> p \<noteq> ''w'' \<and> col \<noteq> BLACK \<and> col \<noteq> WHITE)"
  using assms by (auto simp: color_to_int_def split: if_splits)

text \<open>
  What a play command does to the connection: nothing, or it changes the player to
  move (a pass), or it puts the stone on an empty cell and calls \<open>insertKeyIntoDict\<close>.
\<close>

lemma play_cmd_cases:
  "snd (play_cmd s args) = s \<or>
   (\<exists>p. snd (play_cmd s args) = s\<lparr>board := (board s)\<lparr>current_player := p\<rparr>\<rparr>) \<or>
   (\<exists>a0 a1 rest color row col.
      args = a0 # a1 # rest \<and> color_to_int (lower a0) = Inr color \<and>
      move_to_coord a1 (bd_size (board s)) = Inr (Some (row, col)) \<and>
      bd_array (board s) (coord_to_point row col (bd_size (board s))) = EMPTY \<and>
      snd (play_cmd s args) =
        snd (insertKeyIntoDict
               (s\<lparr>board := (board s)\<lparr>bd_array :=
                    (bd_array (board s))(coord_to_point row col (bd_size (board s)) := color)\<rparr>\<rparr>)
               a0 (row, col) (coord_to_point row col (bd_size (board s)))))"
proof (cases args)
  case Nil
  then show ?thesis
    by (simp add: play_cmd_def play_body_def)
next
  case (Cons a0 as)
  show ?thesis
  proof (cases as)
    case Nil
    then show ?thesis
      using Cons by (simp add: play_cmd_def play_body_def)
  next
    case (Cons a1 rest)
    note args = \<open>args = a0 # as\<close> Cons
    show ?thesis
    proof (cases "color_to_int (lower a0)")
      case (Inl e)
      then show ?thesis
        using args by (simp add: play_cmd_def play_body_def)
    next
      case (Inr color)
      note color = Inr
      show ?thesis
      proof (cases "lower a1 = ''pass''")
        case True
        then have "snd (play_cmd s args) =
            s\<lparr>board := (board s)\<lparr>current_player := opponent color\<rparr>\<rparr>"
          using args color by (simp add: play_cmd_def play_body_def)
        then show ?thesis
          by blast
      next
        case False
        note nopass = False
        show ?thesis
        proof (cases "move_to_coord a1 (bd_size (board s))")
          case (Inl e)
          then show ?thesis
            using args color nopass by (simp add: play_cmd_def play_body_def)
        next
          case (Inr mc)
          note mc = Inr
          show ?thesis
          proof (cases mc)
            case None
            then show ?thesis
              using args color nopass mc by (simp add: play_cmd_def play_body_def)
          next
            case (Some coord)
            obtain row col where coord: "coord = (row, col)"
              by (cases coord) auto
            let ?pt = "coord_to_point row col (bd_size (board s))"
            show ?thesis
            proof (cases "one_side_won s")
              case (Inl e)
              then show ?thesis
                using args color nopass mc Some by (simp add: play_cmd_def play_body_def)
            next
              case (Inr won)
              note won = Inr
              show ?thesis
              proof (cases won)
                case True
                then show ?thesis
                  using args color nopass mc Some won by (simp add: play_cmd_def play_body_def)
              next
                case False
                show ?thesis
                proof (cases "bd_array (board s) ?pt = EMPTY")
                  case False
                  then have "snd (play_cmd s args) = s"
                    using args color nopass mc Some won \<open>\<not> won\<close> coord
                    by (simp add: play_cmd_def play_body_def)
                  then show ?thesis
                    by blast
                next
                  case True
                  then have "snd (play_cmd s args) =
                      snd (insertKeyIntoDict
                        (s\<lparr>board := (board s)\<lparr>bd_array := (bd_array (board s))(?pt := color)\<rparr>\<rparr>)
                        a0 (row, col) ?pt)"
                    using args color nopass mc Some won \<open>\<not> won\<close> coord
                    by (auto simp: play_cmd_def play_body_def Let_def
                        split: prod.splits option.splits)
                  then show ?thesis
                    using args color mc Some coord True by blast
                qed
              qed
            qed
          qed
        qed
      qed
    qed
  qed
qed

lemma lower_b: "lower ''b'' = ''b''"
  by code_simp

lemma lower_w: "lower ''w'' = ''w''"
  by code_simp

lemma in_step_tracked:
  assumes "in_step s"
  shows "\<exists>ms. tracked ms s \<and> stones ''b'' ms = board_stones (board s) BLACK \<and>
           stones ''w'' ms = board_stones (board s) WHITE"
proof -
  from assms obtain Db Dw cm mb mw where t:
    "dictStoreBlackMove s = Some Db" "dictStoreWhiteMove s = Some Dw"
    "dict_keys Db = board_stones (board s) BLACK" "dict_keys Dw = board_stones (board s) WHITE"
    "run_uniform Db" "run_uniform Dw"
    "colorMax s = Some cm" "map_of cm ''b'' = Some mb" "map_of cm ''w'' = Some mw"
    unfolding in_step_def by blast
  define ms :: "(string \<times> cell \<times> int) list"
    where "ms = map (\<lambda>k. (''b'', k, 0)) (map fst Db) @ map (\<lambda>k. (''w'', k, 0)) (map fst Dw)"
  have b: "stones ''b'' ms = dict_keys Db"
    by (auto simp: stones_def ms_def dict_keys_def lower_b lower_w)
  have w: "stones ''w'' ms = dict_keys Dw"
    by (auto simp: stones_def ms_def dict_keys_def lower_b lower_w)
  have "tracked ms s"
    unfolding tracked_def using t b w by simp
  then show ?thesis
    using b w t(3,4) by auto
qed

lemma in_step_play:
  assumes "in_step s"
  shows "in_step (snd (play_cmd s args))"
proof -
  from play_cmd_cases [of s args]
  consider (same) "snd (play_cmd s args) = s"
    | (pass) p where "snd (play_cmd s args) = s\<lparr>board := (board s)\<lparr>current_player := p\<rparr>\<rparr>"
    | (placed) a0 a1 rest color row col where
        "args = a0 # a1 # rest" "color_to_int (lower a0) = Inr color"
        "move_to_coord a1 (bd_size (board s)) = Inr (Some (row, col))"
        "bd_array (board s) (coord_to_point row col (bd_size (board s))) = EMPTY"
        "snd (play_cmd s args) =
          snd (insertKeyIntoDict
               (s\<lparr>board := (board s)\<lparr>bd_array :=
                    (bd_array (board s))(coord_to_point row col (bd_size (board s)) := color)\<rparr>\<rparr>)
               a0 (row, col) (coord_to_point row col (bd_size (board s))))"
    by blast
  then show ?thesis
  proof cases
    case same
    then show ?thesis
      using assms by simp
  next
    case pass
    then show ?thesis
      using assms by (simp add: in_step_def board_stones_player)
  next
    case placed
    let ?n = "bd_size (board s)"
    let ?pt = "coord_to_point row col ?n"
    let ?b' = "(board s)\<lparr>bd_array := (bd_array (board s))(?pt := color)\<rparr>"
    let ?s1 = "s\<lparr>board := ?b'\<rparr>"
    let ?R = "insertKeyIntoDict ?s1 a0 (row, col) ?pt"
    have rng: "1 \<le> row" "row \<le> ?n" "1 \<le> col" "col \<le> ?n"
      using move_to_coord_range [OF placed(3)] by simp_all
    have bs: "board_stones ?b' c =
        (if c = color then insert (row, col) (board_stones (board s) c)
         else board_stones (board s) c)" if "c \<noteq> EMPTY" for c
      using rng placed(4) that by (rule board_stones_place)
    have bd: "board (snd ?R) = ?b'"
      by (simp add: insertKeyIntoDict_board)
    from in_step_tracked [OF assms] obtain ms where ms: "tracked ms s"
      "stones ''b'' ms = board_stones (board s) BLACK"
      "stones ''w'' ms = board_stones (board s) WHITE"
      by blast
    have tr1: "tracked ms ?s1"
      using ms(1) by (simp add: tracked_def)
    from ms(1) obtain Db Dw cm mb mw where t:
      "dictStoreBlackMove s = Some Db" "dictStoreWhiteMove s = Some Dw"
      "dict_keys Db = stones ''b'' ms" "dict_keys Dw = stones ''w'' ms"
      "run_uniform Db" "run_uniform Dw"
      "colorMax s = Some cm" "map_of cm ''b'' = Some mb" "map_of cm ''w'' = Some mw"
      unfolding tracked_def by blast
    have free: "(row, col) \<notin> board_stones (board s) c" if "c \<noteq> EMPTY" for c
      using placed(4) that by (simp add: board_stones_iff)
    from color_to_int_cases [OF placed(2)]
    consider (black) "lower a0 = ''b''" "color = BLACK"
      | (white) "lower a0 = ''w''" "color = WHITE"
      | (other) "lower a0 \<noteq> ''b''" "lower a0 \<noteq> ''w''" "color \<noteq> BLACK" "color \<noteq> WHITE"
      by blast
    then have "in_step (snd ?R)"
    proof cases
      case black
      have fresh: "(row, col) \<notin> stones ''b'' ms"
        using free [of BLACK] ms(2) by simp
      from placement [OF tr1 black(1) _ fresh, of ?pt]
      obtain D' cm' where p:
        "dict_of ''b'' (snd ?R) = Some D'"
        "dict_keys D' = insert (row, col) (stones ''b'' ms)" "run_uniform D'"
        "dictStoreWhiteMove (snd ?R) = dictStoreWhiteMove ?s1"
        "colorMax (snd ?R) = Some cm'"
        "\<exists>x. map_of cm' ''b'' = Some x" "\<exists>x. map_of cm' ''w'' = Some x"
        by auto
      have "dictStoreBlackMove (snd ?R) = Some D'"
        using p(1) by (simp add: dict_of_def)
      moreover have "dictStoreWhiteMove (snd ?R) = Some Dw"
        using p(4) t(2) by simp
      moreover have "dict_keys D' = board_stones (board (snd ?R)) BLACK"
        unfolding bd using bs [of BLACK] black(2) p(2) ms(2) by simp
      moreover have "dict_keys Dw = board_stones (board (snd ?R)) WHITE"
        unfolding bd using bs [of WHITE] black(2) t(4) ms(3) by simp
      ultimately show ?thesis
        unfolding in_step_def using p(3,5,6,7) t(6) by auto
    next
      case white
      have fresh: "(row, col) \<notin> stones ''w'' ms"
        using free [of WHITE] ms(3) by simp
      from placement [OF tr1 white(1) _ fresh, of ?pt]
      obtain D' cm' where p:
        "dict_of ''w'' (snd ?R) = Some D'"
        "dict_keys D' = insert (row, col) (stones ''w'' ms)" "run_uniform D'"
        "dictStoreBlackMove (snd ?R) = dictStoreBlackMove ?s1"
        "colorMax (snd ?R) = Some cm'"
        "\<exists>x. map_of cm' ''b'' = Some x" "\<exists>x. map_of cm' ''w'' = Some x"
        by auto
      have "dictStoreWhiteMove (snd ?R) = Some D'"
        using p(1) by (simp add: dict_of_def)
      moreover have "dictStoreBlackMove (snd ?R) = Some Db"
        using p(4) t(1) by simp
      moreover have "dict_keys D' = board_stones (board (snd ?R)) WHITE"
        unfolding bd using bs [of WHITE] white(2) p(2) ms(3) by simp
      moreover have "dict_keys Db = board_stones (board (snd ?R)) BLACK"
        unfolding bd using bs [of BLACK] white(2) t(3) ms(2) by simp
      ultimately show ?thesis
        unfolding in_step_def using p(3,5,6,7) t(5) by auto
    next
      case other
      have cm1: "colorMax ?s1 = Some cm"
        using t(7) by simp
      from insertKeyIntoDict_other [OF other(1,2) cm1, of "(row, col)" ?pt]
      obtain cm' where o: "dictStoreBlackMove (snd ?R) = Some Db"
        "dictStoreWhiteMove (snd ?R) = Some Dw" "colorMax (snd ?R) = Some cm'"
        "map_of cm' ''b'' = Some mb" "map_of cm' ''w'' = Some mw"
        using t(1,2,8,9) by auto
      have "dict_keys Db = board_stones (board (snd ?R)) BLACK"
        unfolding bd using bs [of BLACK] other(3) t(3) ms(2) by simp
      moreover have "dict_keys Dw = board_stones (board (snd ?R)) WHITE"
        unfolding bd using bs [of WHITE] other(4) t(4) ms(3) by simp
      ultimately show ?thesis
        unfolding in_step_def using o t(5,6) by auto
    qed
    then show ?thesis
      by (simp only: placed(5))
  qed
qed

lemma in_step_play_all:
  assumes "in_step s"
  shows "in_step (play_all s cmds)"
  using assms
proof (induction cmds arbitrary: s)
  case Nil
  then show ?case by simp
next
  case (Cons a cmds)
  have "in_step (snd (play_cmd s a))"
    using Cons.prems by (rule in_step_play)
  then show ?case
    using Cons.IH by simp
qed

lemma in_step_cleared:
  assumes "clear_board_cmd s0 args = Inr (rep, s)"
  shows "in_step s"
proof -
  from assms obtain n where s: "s = s0\<lparr>board := empty_board n, dictStoreWhiteMove := Some [],
      dictStoreBlackMove := Some [], colorMax := Some [(''b'', 0), (''w'', 0)]\<rparr>"
    unfolding clear_board_cmd_def reset_def by (auto split: sum.splits if_splits)
  show ?thesis
    unfolding in_step_def s
    by (simp add: board_stones_empty run_uniform_empty dict_keys_def)
qed

text \<open>
  In a game on one board, that is after \<open>clear_board\<close> and any number of play
  commands, accepted or not, the tracker is in step with the board.
\<close>

lemma in_step_game:
  assumes "clear_board_cmd s0 args = Inr (rep, s)"
  shows "in_step (play_all s cmds)"
  using in_step_cleared [OF assms] by (rule in_step_play_all)

text \<open>
  Run uniformity in a game on one board: for the player \<open>b\<close> with the stones
  \<open>BLACK\<close>, or \<open>w\<close> with the stones \<open>WHITE\<close>, every cell of a maximal run of
  \<open>n\<close> stones of the player on the board stores \<open>n\<close> for the direction of the run.
\<close>

lemma board_run_uniformity:
  assumes "clear_board_cmd s0 args = Inr (rep, s)"
    and "p = ''b'' \<and> col = BLACK \<or> p = ''w'' \<and> col = WHITE"
    and "maximal_run (board_stones (board (play_all s cmds)) col) d c n" and "j < n"
  shows "\<exists>D. dict_of p (play_all s cmds) = Some D \<and>
           stored D d (step d c (int j)) = Some (int n)"
proof -
  let ?t = "play_all s cmds"
  have "in_step ?t"
    using assms(1) by (rule in_step_game)
  then obtain D where D: "dict_of p ?t = Some D"
    "dict_keys D = board_stones (board ?t) col" "run_uniform D"
    using assms(2) unfolding in_step_def dict_of_def by auto
  then have "uniform_dir (board_stones (board ?t) col) D d"
    by (simp add: run_uniform_def)
  then have "stored D d (step d c (int j)) = Some (int n)"
    using assms(3,4) unfolding uniform_dir_def by blast
  with D(1) show ?thesis
    by simp
qed

lemma play_cmd_placed:
  assumes "color_to_int (lower c) = Inr color"
    and "move_to_coord mv (bd_size (board s)) = Inr (Some (row, col))"
    and "one_side_won s = Inr False"
    and "bd_array (board s) (coord_to_point row col (bd_size (board s))) = EMPTY"
    and "fst (insertKeyIntoDict
               (s\<lparr>board := (board s)\<lparr>bd_array :=
                    (bd_array (board s))(coord_to_point row col (bd_size (board s)) := color)\<rparr>\<rparr>)
               c (row, col) (coord_to_point row col (bd_size (board s)))) = None"
  shows "play_cmd s [c, mv] =
           (Respond [],
            snd (insertKeyIntoDict
               (s\<lparr>board := (board s)\<lparr>bd_array :=
                    (bd_array (board s))(coord_to_point row col (bd_size (board s)) := color)\<rparr>\<rparr>)
               c (row, col) (coord_to_point row col (bd_size (board s)))))"
  using assms move_to_coord_Some_not_pass [OF assms(2)]
  by (auto simp: play_cmd_def play_body_def Let_def split: prod.splits option.splits)

text \<open>
  Merge correctness in a game on one board: when the tracker is in step with the board
  and no side has won, a play of \<open>b\<close> or \<open>w\<close> on an empty cell that has, along the
  direction \<open>d\<close>, a run of \<open>L1\<close> stones of the player next to it on one side and a
  run of \<open>L2\<close> on the other side is accepted, stores \<open>L1 + L2 + 1\<close> for \<open>d\<close> at
  the cell and leaves the recorded maximum of the player at \<open>L1 + L2 + 1\<close> or more.
\<close>

lemma board_merge_correct:
  assumes "in_step s"
    and "lower c = p" and "p = ''b'' \<and> color = BLACK \<or> p = ''w'' \<and> color = WHITE"
    and "one_side_won s = Inr False"
    and "move_to_coord mv (bd_size (board s)) = Inr (Some coord)"
    and "bd_array (board s) (coord_to_point (fst coord) (snd coord) (bd_size (board s))) = EMPTY"
    and "\<forall>i. 0 \<le> i \<and> i < int L1 \<longrightarrow> nbr d First coord i \<in> board_stones (board s) color"
    and "nbr d First coord (int L1) \<notin> board_stones (board s) color"
    and "\<forall>i. 0 \<le> i \<and> i < int L2 \<longrightarrow> nbr d Second coord i \<in> board_stones (board s) color"
    and "nbr d Second coord (int L2) \<notin> board_stones (board s) color"
  shows "fst (play_cmd s [c, mv]) = Respond [] \<and>
         (\<exists>D cm v.
            dict_of p (snd (play_cmd s [c, mv])) = Some D \<and>
            stored D d coord = Some (int L1 + int L2 + 1) \<and>
            colorMax (snd (play_cmd s [c, mv])) = Some cm \<and>
            map_of cm p = Some v \<and> int L1 + int L2 + 1 \<le> v)"
proof -
  obtain row col where coord: "coord = (row, col)"
    by (cases coord) auto
  let ?n = "bd_size (board s)"
  let ?pt = "coord_to_point row col ?n"
  let ?b' = "(board s)\<lparr>bd_array := (bd_array (board s))(?pt := color)\<rparr>"
  let ?s1 = "s\<lparr>board := ?b'\<rparr>"
  let ?R = "insertKeyIntoDict ?s1 c (row, col) ?pt"
  from in_step_tracked [OF assms(1)] obtain ms where ms: "tracked ms s"
    "stones ''b'' ms = board_stones (board s) BLACK"
    "stones ''w'' ms = board_stones (board s) WHITE"
    by blast
  have K: "stones p ms = board_stones (board s) color"
    using assms(3) ms(2,3) by auto
  have pp: "p = ''b'' \<or> p = ''w''"
    using assms(3) by auto
  have ci: "color_to_int (lower c) = Inr color"
    using assms(2,3) by (auto simp: color_to_int_def)
  have mv: "move_to_coord mv ?n = Inr (Some (row, col))"
    using assms(5) coord by simp
  have empty: "bd_array (board s) ?pt = EMPTY"
    using assms(6) coord by simp
  have ne: "color \<noteq> EMPTY"
    using assms(3) by auto
  have fresh: "(row, col) \<notin> stones p ms"
    unfolding K using empty ne by (simp add: board_stones_iff)
  have tr1: "tracked ms ?s1"
    using ms(1) by (simp add: tracked_def)
  from placement [OF tr1 assms(2) pp fresh, of ?pt]
  obtain D cm v where p: "fst ?R = None" "dict_of p (snd ?R) = Some D"
    "dict_keys D = insert (row, col) (stones p ms)" "run_uniform D"
    "colorMax (snd ?R) = Some cm" "map_of cm p = Some v"
    "\<forall>d v'. stored D d (row, col) = Some v' \<longrightarrow> v' \<le> v"
    by blast
  have res: "play_cmd s [c, mv] = (Respond [], snd ?R)"
    using ci mv assms(4) empty p(1) by (rule play_cmd_placed)
  have run: "maximal_run (insert coord (stones p ms)) d (step d coord (- int L1)) (L1 + L2 + 1)"
    using fresh assms(7-10) unfolding K [symmetric] coord by (rule run_through_placed)
  have "uniform_dir (insert coord (stones p ms)) D d"
    using p(3,4) coord by (simp add: run_uniform_def)
  moreover have "L1 < L1 + L2 + 1"
    by simp
  ultimately have "stored D d (step d (step d coord (- int L1)) (int L1)) = Some (int (L1 + L2 + 1))"
    using run unfolding uniform_dir_def by blast
  then have val: "stored D d coord = Some (int L1 + int L2 + 1)"
    by (simp add: step_step step_0)
  then have "int L1 + int L2 + 1 \<le> v"
    using p(7) coord by blast
  with p(2,5,6) val show ?thesis
    unfolding res by auto
qed

lemma board_merge_correct_example:
  "fst (play_cmd (play_all (new_game 5) [[''b'', ''a1''], [''b'', ''b1''], [''b'', ''d1'']])
         [''b'', ''c1'']) = Respond [] \<and>
   (\<exists>D cm v.
      dict_of ''b'' (snd (play_cmd
          (play_all (new_game 5) [[''b'', ''a1''], [''b'', ''b1''], [''b'', ''d1'']])
          [''b'', ''c1''])) = Some D \<and>
      stored D LeftRight (1, 3) = Some 4 \<and>
      colorMax (snd (play_cmd
          (play_all (new_game 5) [[''b'', ''a1''], [''b'', ''b1''], [''b'', ''d1'']])
          [''b'', ''c1''])) = Some cm \<and>
      map_of cm ''b'' = Some v \<and> 4 \<le> v)"
proof -
  let ?t = "play_all (new_game 5) [[''b'', ''a1''], [''b'', ''b1''], [''b'', ''d1'']]"
  have h0: "clear_board_cmd (init (empty_board 5)) [] = Inr (Respond [], new_game 5)"
    by (rule clear_board_cmd_new_game) (simp_all add: MAXSIZE_def)
  have h1: "in_step ?t"
    using h0 by (rule in_step_game)
  have h3: "''b'' = ''b'' \<and> BLACK = BLACK \<or> ''b'' = ''w'' \<and> BLACK = WHITE"
    by simp
  have h4: "one_side_won ?t = Inr False"
    by code_simp
  have h5: "move_to_coord ''c1'' (bd_size (board ?t)) = Inr (Some (1, 3))"
    by code_simp
  have h6: "bd_array (board ?t) (coord_to_point (fst (1, 3)) (snd (1, 3)) (bd_size (board ?t))) =
      EMPTY"
    by code_simp
  have st: "board_stones (board ?t) BLACK = {(1, 1), (1, 2), (1, 4)}"
    by code_simp
  have two: "i = 0 \<or> i = 1" if "0 \<le> i \<and> i < int 2" for i :: int
    using that by auto
  have h7: "\<forall>i. 0 \<le> i \<and> i < int 2 \<longrightarrow>
      nbr LeftRight First (1, 3) i \<in> board_stones (board ?t) BLACK"
    unfolding st using two by auto
  have h8: "nbr LeftRight First (1, 3) (int 2) \<notin> board_stones (board ?t) BLACK"
    unfolding st by simp
  have h9: "\<forall>i. 0 \<le> i \<and> i < int 1 \<longrightarrow>
      nbr LeftRight Second (1, 3) i \<in> board_stones (board ?t) BLACK"
    unfolding st by auto
  have h10: "nbr LeftRight Second (1, 3) (int 1) \<notin> board_stones (board ?t) BLACK"
    unfolding st by simp
  from board_merge_correct [OF h1 lower_b h3 h4 h5 h6 h7 h8 h9 h10] show ?thesis
    by simp
qed

section \<open>The tracker after a change of the board size\<close>

text \<open>
  Claim C2 fails on the code. In the session \<open>clear_board\<close>, \<open>play b b1\<close>,
  \<open>boardsize 5\<close>, \<open>play b a1\<close>, \<open>play b b1\<close> every command is accepted.
  \<open>boardsize_cmd\<close> empties the board and keeps the tracker, so \<open>play b a1\<close> adds the
  length of the entry that the dictionary still holds for b1, and the second
  \<open>play b b1\<close> finds the cell empty on the board and present in the black dictionary,
  where \<open>setdefault\<close> keeps its entry. Afterwards the first row of the board holds
  black stones on a1 and b1 only, the black dictionary holds exactly the cells (1, 1) and
  (1, 2), a maximal run of two stones along \<open>leftRight\<close>, and both cells store 4 for
  \<open>leftRight\<close>. Without \<open>boardsize\<close> in between, the invariant holds (lemmas
  \<open>run_uniformity\<close> and \<open>board_run_uniformity\<close>).
\<close>

theorem stale_tracker_run_lengths:
  "map_sum id fst (run (init (empty_board 5)) stale_session) =
     Inr [Respond [], Respond [], Respond [], Respond [], Respond []] \<and>
   map_sum id (dictStoreBlackMove \<circ> snd) (run (init (empty_board 5)) stale_session) =
     Inr (Some [((1, 2), \<lparr>upDown = 1, leftRight = 4, backslash = 1, forwardslash = 1\<rparr>),
                ((1, 1), \<lparr>upDown = 1, leftRight = 4, backslash = 1, forwardslash = 1\<rparr>)]) \<and>
   map_sum id (\<lambda>x. board_stones (board (snd x)) BLACK)
     (run (init (empty_board 5)) stale_session) = Inr {(1, 1), (1, 2)} \<and>
   maximal_run {(1, 1), (1, 2)} LeftRight (1, 1) 2 \<and>
   stored [((1, 2), \<lparr>upDown = 1, leftRight = 4, backslash = 1, forwardslash = 1\<rparr>),
           ((1, 1), \<lparr>upDown = 1, leftRight = 4, backslash = 1, forwardslash = 1\<rparr>)]
     LeftRight (1, 1) = Some 4 \<and>
   stored [((1, 2), \<lparr>upDown = 1, leftRight = 4, backslash = 1, forwardslash = 1\<rparr>),
           ((1, 1), \<lparr>upDown = 1, leftRight = 4, backslash = 1, forwardslash = 1\<rparr>)]
     LeftRight (1, 2) = Some 4"
proof -
  have 1: "map_sum id fst (run (init (empty_board 5)) stale_session) =
     Inr [Respond [], Respond [], Respond [], Respond [], Respond []]"
    by code_simp
  have 2: "map_sum id (dictStoreBlackMove \<circ> snd) (run (init (empty_board 5)) stale_session) =
     Inr (Some [((1, 2), \<lparr>upDown = 1, leftRight = 4, backslash = 1, forwardslash = 1\<rparr>),
                ((1, 1), \<lparr>upDown = 1, leftRight = 4, backslash = 1, forwardslash = 1\<rparr>)])"
    by code_simp
  have 3: "map_sum id (\<lambda>x. board_stones (board (snd x)) BLACK)
     (run (init (empty_board 5)) stale_session) = Inr {(1, 1), (1, 2)}"
    by code_simp
  have 4: "maximal_run {(1, 1), (1, 2)} LeftRight (1, 1) 2"
    by (auto simp: maximal_run_def less_Suc_eq numeral_2_eq_2)
  have 5: "stored [((1, 2), \<lparr>upDown = 1, leftRight = 4, backslash = 1, forwardslash = 1\<rparr>),
           ((1, 1), \<lparr>upDown = 1, leftRight = 4, backslash = 1, forwardslash = 1\<rparr>)]
     LeftRight (1, 1) = Some 4"
    by (simp add: stored_def)
  have 6: "stored [((1, 2), \<lparr>upDown = 1, leftRight = 4, backslash = 1, forwardslash = 1\<rparr>),
           ((1, 1), \<lparr>upDown = 1, leftRight = 4, backslash = 1, forwardslash = 1\<rparr>)]
     LeftRight (1, 2) = Some 4"
    by (simp add: stored_def)
  show ?thesis
    using 1 2 3 4 5 6 by blast
qed

theorem stale_tracker_run_lengths_witness:
  "\<not> run_uniform [((1, 2), \<lparr>upDown = 1, leftRight = 4, backslash = 1, forwardslash = 1\<rparr>),
                   ((1, 1), \<lparr>upDown = 1, leftRight = 4, backslash = 1, forwardslash = 1\<rparr>)]"
proof
  let ?D = "[((1, 2), \<lparr>upDown = 1, leftRight = 4, backslash = 1, forwardslash = 1\<rparr>),
             ((1, 1), \<lparr>upDown = 1, leftRight = 4, backslash = 1, forwardslash = 1\<rparr>)]"
  assume "run_uniform ?D"
  then have "uniform_dir (dict_keys ?D) ?D LeftRight"
    by (simp add: run_uniform_def)
  moreover have "dict_keys ?D = {(1, 1), (1, 2)}"
    by (auto simp: dict_keys_def)
  moreover have "maximal_run {(1, 1), (1, 2)} LeftRight (1, 1) 2"
    and "stored ?D LeftRight (1, 1) = Some 4"
    using stale_tracker_run_lengths by blast+
  ultimately have "stored ?D LeftRight (step LeftRight (1, 1) (int 0)) = Some (int 2)"
    unfolding uniform_dir_def by (metis zero_less_numeral)
  then show False
    using \<open>stored ?D LeftRight (1, 1) = Some 4\<close> by simp
qed

text \<open>
  Claim C1 fails on the code, by the same defect. After the session above and
  \<open>play b d1\<close>, the first row of the board holds black stones on a1, b1 and d1 only,
  and the black dictionary holds exactly these three cells: the empty cell c1 has a run
  of two black stones on its left and a run of one on its right. \<open>play b c1\<close> is
  accepted and stores 6 for \<open>leftRight\<close> at c1, not 2 + 1 + 1 = 4, and the recorded
  maximum of Black becomes 6 with four black stones on the board. In a game on one
  board the claim holds (lemmas \<open>merge_correct\<close> and \<open>board_merge_correct\<close>).
\<close>

theorem stale_tracker_merge:
  "map_sum id (\<lambda>x. map_option dict_keys (dictStoreBlackMove (snd x)))
     (run (init (empty_board 5)) (stale_session @ [Play ''b'' ''d1''])) =
     Inr (Some {(1, 1), (1, 2), (1, 4)}) \<and>
   map_sum id (\<lambda>x. board_stones (board (snd x)) BLACK)
     (run (init (empty_board 5)) (stale_session @ [Play ''b'' ''d1''])) =
     Inr {(1, 1), (1, 2), (1, 4)} \<and>
   map_sum id fst (run (init (empty_board 5))
     (stale_session @ [Play ''b'' ''d1'', Play ''b'' ''c1''])) =
     Inr [Respond [], Respond [], Respond [], Respond [], Respond [], Respond [], Respond []] \<and>
   map_sum id (\<lambda>x. map_option (\<lambda>D. stored D LeftRight (1, 3)) (dictStoreBlackMove (snd x)))
     (run (init (empty_board 5)) (stale_session @ [Play ''b'' ''d1'', Play ''b'' ''c1''])) =
     Inr (Some (Some 6)) \<and>
   map_sum id (colorMax \<circ> snd)
     (run (init (empty_board 5)) (stale_session @ [Play ''b'' ''d1'', Play ''b'' ''c1''])) =
     Inr (Some [(''b'', 6), (''w'', 0)]) \<and>
   map_sum id (\<lambda>x. board_stones (board (snd x)) BLACK)
     (run (init (empty_board 5)) (stale_session @ [Play ''b'' ''d1'', Play ''b'' ''c1''])) =
     Inr {(1, 1), (1, 2), (1, 3), (1, 4)}"
  by code_simp

theorem stale_tracker_merge_witness:
  "map_sum id (\<lambda>x. map_option (\<lambda>D. stored D LeftRight (1, 3)) (dictStoreBlackMove (snd x)))
     (run (init (empty_board 5)) (stale_session @ [Play ''b'' ''d1'', Play ''b'' ''c1''])) \<noteq>
     Inr (Some (Some 4))"
  using stale_tracker_merge by simp

end
